theory Spec2Isabelle
  imports Complex_Main
begin

section \<open>Number model\<close>

text \<open>
  Every JavaScript number of the program is an IEEE double.  The embedding reads a double
  as the mathematical real it denotes and an integer-valued double (a loop counter, a
  chunk coordinate, a floored value) as an \<open>int\<close>: rounding is outside the model.
  Decimal literals such as \<open>12.9898\<close> stand for the rationals they are written as.

  Overflow to Infinity and NaN are outside this model as well.  The class of
  \<open>perlin.js\<close> is exported and its methods accept any number, so that file is embedded
  a second time, over numbers with Infinity and NaN, for the claim about the range of
  its results.
\<close>

section \<open>perlin.js: class PerlinNoise\<close>

record gradient =
  gx :: real
  gy :: real

text \<open>
  The two caches are plain objects keyed by the string \<open>`${a},${b}`\<close>.  Number
  formatting is injective on the reals the model considers and never yields a comma, so
  the key is the pair itself.
\<close>

record PerlinNoise =
  seed :: real
  gradients :: "real \<times> real \<rightharpoonup> gradient"
  memory :: "real \<times> real \<rightharpoonup> real"

definition newPerlinNoise :: "real \<Rightarrow> PerlinNoise" where
  "newPerlinNoise s = \<lparr>seed = s, gradients = Map.empty, memory = Map.empty\<rparr>"

text \<open>Lines 16--22 of \<open>randomGradient\<close>: the gradient computed on a cache miss.\<close>

definition computeGradient :: "real \<Rightarrow> real \<Rightarrow> real \<Rightarrow> gradient" where
  "computeGradient s ix iy =
     (let random = sin (ix * 12.9898 + iy * 78.233 + s) * 43758.5453;
          angle = (random - of_int \<lfloor>random\<rfloor>) * 2 * pi
      in \<lparr>gx = cos angle, gy = sin angle\<rparr>)"

text \<open>A cached gradient is an object, hence truthy: the test is a presence test.\<close>

definition randomGradient :: "PerlinNoise \<Rightarrow> real \<Rightarrow> real \<Rightarrow> gradient \<times> PerlinNoise" where
  "randomGradient p ix iy =
     (case gradients p (ix, iy) of
        Some g \<Rightarrow> (g, p)
      | None \<Rightarrow>
          (let g = computeGradient (seed p) ix iy
           in (g, p\<lparr>gradients := (gradients p)((ix, iy) \<mapsto> g)\<rparr>)))"

definition dotGridGradient ::
  "PerlinNoise \<Rightarrow> real \<Rightarrow> real \<Rightarrow> real \<Rightarrow> real \<Rightarrow> real \<times> PerlinNoise" where
  "dotGridGradient p ix iy x y =
     (let (g, p') = randomGradient p ix iy;
          dx = x - ix;
          dy = y - iy
      in (dx * gx g + dy * gy g, p'))"

definition interpolate :: "real \<Rightarrow> real \<Rightarrow> real \<Rightarrow> real" where
  "interpolate a0 a1 w = (a1 - a0) * (3.0 - w * 2.0) * w * w + a0"

definition noise :: "PerlinNoise \<Rightarrow> real \<Rightarrow> real \<Rightarrow> real \<times> PerlinNoise" where
  "noise p x y =
     (case memory p (x, y) of
        Some v \<Rightarrow> (v, p)
      | None \<Rightarrow>
          (let x0 = of_int \<lfloor>x\<rfloor>;
               x1 = x0 + 1;
               y0 = of_int \<lfloor>y\<rfloor>;
               y1 = y0 + 1;
               sx = x - x0;
               sy = y - y0;
               (n0, p1) = dotGridGradient p x0 y0 x y;
               (n1, p2) = dotGridGradient p1 x1 y0 x y;
               ix0 = interpolate n0 n1 sx;
               (n2, p3) = dotGridGradient p2 x0 y1 x y;
               (n3, p4) = dotGridGradient p3 x1 y1 x y;
               ix1 = interpolate n2 n3 sx;
               v = interpolate ix0 ix1 sy
           in (v, p4\<lparr>memory := (memory p4)((x, y) \<mapsto> v)\<rparr>)))"

text \<open>
  The loop of \<open>octaveNoise\<close>, from counter \<open>i\<close> on, over the four accumulators.  It
  returns \<open>total\<close> (written \<open>tot\<close>, the name \<open>total\<close> being taken in HOL) and
  \<open>maxValue\<close> as they stand when the loop exits.
\<close>

function octaveLoop ::
  "PerlinNoise \<Rightarrow> real \<Rightarrow> real \<Rightarrow> int \<Rightarrow> real \<Rightarrow> int \<Rightarrow> real \<Rightarrow> real \<Rightarrow> real \<Rightarrow> real
     \<Rightarrow> (real \<times> real) \<times> PerlinNoise" where
  "octaveLoop p x y octaves persistence i tot frequency amplitude maxValue =
     (if i < octaves then
        (let (n, p') = noise p (x * frequency) (y * frequency)
         in octaveLoop p' x y octaves persistence (i + 1)
              (tot + n * amplitude) (frequency * 2) (amplitude * persistence)
              (maxValue + amplitude))
      else ((tot, maxValue), p))"
  by pat_completeness auto
termination
  by (relation "measure (\<lambda>(p, x, y, octaves, persistence, i, r). nat (octaves - i))") auto

declare octaveLoop.simps [simp del]

text \<open>
  \<open>total / maxValue\<close>.  JavaScript yields NaN for \<open>0 / 0\<close> where HOL yields \<open>0\<close>;
  the divisor is exposed by \<open>octaveLoop\<close> so that it can be shown non-zero.
\<close>

definition octaveNoise ::
  "PerlinNoise \<Rightarrow> real \<Rightarrow> real \<Rightarrow> int \<Rightarrow> real \<Rightarrow> real \<times> PerlinNoise" where
  "octaveNoise p x y octaves persistence =
     (let ((tot, maxValue), p') = octaveLoop p x y octaves persistence 0 0 1 1 0
      in (tot / maxValue, p'))"

section \<open>perlin.js with overflow: Infinity and NaN\<close>

text \<open>
  The class \<open>PerlinNoise\<close> is exported and its methods take any number.  A second
  embedding of the same code therefore keeps what the reals of the first lose: a number
  is a finite real, \<open>Infinity\<close>, \<open>-Infinity\<close> or \<open>NaN\<close>, and an arithmetic result of
  magnitude \<open>2\<^sup>1\<^sup>0\<^sup>2\<^sup>4\<close> or more is infinite.  Below that magnitude results are still
  exact reals (rounding is left out), and there is one zero.  The operations follow
  IEEE 754 on the special values.
\<close>

datatype jsnum = Fin real | PosInf | NegInf | NaN

definition fin :: "real \<Rightarrow> jsnum" where
  "fin r = (if 2 ^ 1024 \<le> r then PosInf else if r \<le> - (2 ^ 1024) then NegInf else Fin r)"



















section \<open>main.js: configuration and the height map\<close>

text \<open>The configuration constants, read at whichever number type the context needs.\<close>

abbreviation (input) WORLD_SIZE :: "'a::numeral" where "WORLD_SIZE \<equiv> 256"
abbreviation (input) CHUNK_SIZE :: "'a::numeral" where "CHUNK_SIZE \<equiv> 16"
abbreviation (input) VOXEL_SIZE :: real where "VOXEL_SIZE \<equiv> 1"
abbreviation (input) RENDER_DISTANCE :: int where "RENDER_DISTANCE \<equiv> 6"
abbreviation (input) PLAYER_HEIGHT :: real where "PLAYER_HEIGHT \<equiv> 1.8"
abbreviation (input) MOVE_SPEED :: real where "MOVE_SPEED \<equiv> 5"

text \<open>
  The body of the inner loop of \<open>generateHeightMap\<close> (lines 61--78): the height of the
  cell at column \<open>x\<close>, row \<open>z\<close>.  \<open>nz\<close> and \<open>nw\<close> are computed and not used, as in the
  source.
\<close>

definition cellHeight :: "PerlinNoise \<Rightarrow> real \<Rightarrow> real \<Rightarrow> int \<times> PerlinNoise" where
  "cellHeight p x z =
     (let wx = x / WORLD_SIZE;
          wz = z / WORLD_SIZE;
          nx = cos (wx * 2 * pi) / (2 * pi);
          ny = sin (wx * 2 * pi) / (2 * pi);
          nz = cos (wz * 2 * pi) / (2 * pi);
          nw = sin (wz * 2 * pi) / (2 * pi);
          (noiseValue, p') = octaveNoise p ((nx + 1) * 100) ((ny + 1) * 100) 4 0.5;
          height = \<lfloor>(noiseValue + 1) * 10\<rfloor> + 5
      in (height, p'))"

text \<open>
  The loops over \<open>x\<close> and over \<open>z\<close> of \<open>generateHeightMap\<close>.  Each assignment
  \<open>heightMap[z][x] = height\<close> writes at the index that is the current length of the row
  (the rows start empty and \<open>x\<close> counts up from \<open>0\<close>), so it appends; likewise for the
  rows of the map.  The noise object is threaded through: the calls fill its caches.
\<close>

function heightRowLoop :: "PerlinNoise \<Rightarrow> nat \<Rightarrow> nat \<Rightarrow> int list \<Rightarrow> int list \<times> PerlinNoise" where
  "heightRowLoop p z x row =
     (if x < WORLD_SIZE then
        (let (height, p') = cellHeight p (real x) (real z)
         in heightRowLoop p' z (x + 1) (row @ [height]))
      else (row, p))"
  by pat_completeness auto
termination
  by (relation "measure (\<lambda>(p, z, x, row). WORLD_SIZE - x)") auto

declare heightRowLoop.simps [simp del]

function heightMapLoop :: "PerlinNoise \<Rightarrow> nat \<Rightarrow> int list list \<Rightarrow> int list list \<times> PerlinNoise" where
  "heightMapLoop p z heightMap =
     (if z < WORLD_SIZE then
        (let (row, p') = heightRowLoop p z 0 []
         in heightMapLoop p' (z + 1) (heightMap @ [row]))
      else (heightMap, p))"
  by pat_completeness auto
termination
  by (relation "measure (\<lambda>(p, z, heightMap). WORLD_SIZE - z)") auto

declare heightMapLoop.simps [simp del]

definition generateHeightMap :: "PerlinNoise \<Rightarrow> int list list \<times> PerlinNoise" where
  "generateHeightMap p = heightMapLoop p 0 []"


section \<open>main.js: wrapping, chunk meshing and chunk loading\<close>

text \<open>
  The remainder operator \<open>%\<close> of JavaScript truncates: the result has the sign of the
  dividend.  \<open>jsRem\<close> is \<open>%\<close> on integer-valued numbers, \<open>jsRemReal\<close> on all numbers; the
  divisor is the non-zero constant \<open>WORLD_SIZE\<close> at every use (for a zero divisor
  JavaScript yields NaN, which the model does not represent).
\<close>

definition jsRem :: "int \<Rightarrow> int \<Rightarrow> int" where
  "jsRem a n = sgn a * (\<bar>a\<bar> mod \<bar>n\<bar>)"

definition jsRemReal :: "real \<Rightarrow> real \<Rightarrow> real" where
  "jsRemReal a n = a - n * of_int (if 0 \<le> a / n then \<lfloor>a / n\<rfloor> else \<lceil>a / n\<rceil>)"

text \<open>
  The expression \<open>((n % WORLD_SIZE) + WORLD_SIZE) % WORLD_SIZE\<close>, written out in
  \<open>generateChunk\<close> (lines 179--180) and in \<open>updatePlayer\<close> (lines 308--309).
\<close>

definition wrap :: "int \<Rightarrow> int" where
  "wrap n = jsRem (jsRem n WORLD_SIZE + WORLD_SIZE) WORLD_SIZE"

definition wrapReal :: "real \<Rightarrow> real" where
  "wrapReal v = jsRemReal (jsRemReal v WORLD_SIZE + WORLD_SIZE) WORLD_SIZE"

text \<open>
  \<open>this.heightMap[z][x]\<close>.  Outside the array the read does not give a height
  (JavaScript throws a TypeError when the row is missing and yields \<open>undefined\<close> when
  only the cell is missing): that is \<open>None\<close>, and the callers stop with \<open>None\<close>.
\<close>

definition heightAt :: "int list list \<Rightarrow> int \<Rightarrow> int \<Rightarrow> int option" where
  "heightAt hm z x =
     (if 0 \<le> z \<and> nat z < length hm \<and> 0 \<le> x \<and> nat x < length (hm ! nat z)
      then Some (hm ! nat z ! nat x) else None)"

text \<open>
  \<open>THREE.Color\<close> belongs to the three.js library: a colour has the channels \<open>r\<close>, \<open>g\<close>,
  \<open>b\<close>, and \<open>setHex\<close>, which turns a hexadecimal colour code into channels, is a
  parameter of the functions that use it.
\<close>

record Color =
  cr :: real
  cg :: real
  cb :: real

text \<open>The three arrays \<open>positions\<close>, \<open>normals\<close>, \<open>colors\<close> that a chunk's mesh is made of.\<close>

record Buffers =
  positions :: "real list"
  normals :: "real list"
  colors :: "real list"

definition emptyBuffers :: Buffers where
  "emptyBuffers = \<lparr>positions = [], normals = [], colors = []\<rparr>"

definition addFace :: "Buffers \<Rightarrow> real list \<Rightarrow> real list \<Rightarrow> Color \<Rightarrow> Buffers" where
  "addFace b vertices normal color =
     b\<lparr>positions := positions b @
          [vertices ! 0, vertices ! 1, vertices ! 2,
           vertices ! 3, vertices ! 4, vertices ! 5,
           vertices ! 6, vertices ! 7, vertices ! 8,
           vertices ! 0, vertices ! 1, vertices ! 2,
           vertices ! 6, vertices ! 7, vertices ! 8,
           vertices ! 9, vertices ! 10, vertices ! 11],
       normals := normals b @ concat (replicate 6 [normal ! 0, normal ! 1, normal ! 2]),
       colors := colors b @ concat (replicate 6 [cr color * 0.8, cg color * 0.8, cb color * 0.8])\<rparr>"

text \<open>
  \<open>addVoxel\<close>: the colour codes are \<open>0x3a7d3a\<close>, \<open>0x8b7355\<close> and \<open>0x808080\<close>.  The top
  face is pushed for every voxel, the four side faces only for \<open>y = height - 1\<close>.
\<close>

definition addVoxel :: "(int \<Rightarrow> Color) \<Rightarrow> Buffers \<Rightarrow> int \<Rightarrow> int \<Rightarrow> int \<Rightarrow> int \<Rightarrow> Buffers" where
  "addVoxel setHex b xi yi zi height =
     (let size = VOXEL_SIZE;
          x = real_of_int xi;
          y = real_of_int yi;
          z = real_of_int zi;
          color = (if yi = height - 1 then setHex 3833146
                   else if yi > height - 4 then setHex 9139029
                   else setHex 8421504);
          b1 = b\<lparr>positions := positions b @
                    [x, y + size, z,
                     x + size, y + size, z,
                     x + size, y + size, z + size,
                     x, y + size, z,
                     x + size, y + size, z + size,
                     x, y + size, z + size],
                 normals := normals b @ concat (replicate 6 [0, 1, 0]),
                 colors := colors b @ concat (replicate 6 [cr color, cg color, cb color])\<rparr>
      in if yi = height - 1 then
           (let b2 = addFace b1
                  [x, y, z + size, x + size, y, z + size,
                   x + size, y + size, z + size, x, y + size, z + size]
                  [0, 0, 1] color;
                b3 = addFace b2
                  [x + size, y, z, x, y, z, x, y + size, z, x + size, y + size, z]
                  [0, 0, - 1] color;
                b4 = addFace b3
                  [x, y, z, x, y, z + size, x, y + size, z + size, x, y + size, z]
                  [- 1, 0, 0] color
            in addFace b4
                 [x + size, y, z + size, x + size, y, z,
                  x + size, y + size, z, x + size, y + size, z + size]
                 [1, 0, 0] color)
         else b1)"

text \<open>The loop over \<open>y\<close> of \<open>generateChunk\<close> (lines 185--187).\<close>

function voxelLoop :: "(int \<Rightarrow> Color) \<Rightarrow> Buffers \<Rightarrow> int \<Rightarrow> int \<Rightarrow> int \<Rightarrow> int \<Rightarrow> Buffers" where
  "voxelLoop setHex b worldX worldZ height y =
     (if y < height then
        voxelLoop setHex (addVoxel setHex b worldX y worldZ height) worldX worldZ height (y + 1)
      else b)"
  by pat_completeness auto
termination
  by (relation "measure (\<lambda>(setHex, b, worldX, worldZ, height, y). nat (height - y))") auto

declare voxelLoop.simps [simp del]

text \<open>The height that the column \<open>(x, z)\<close> of chunk \<open>(chunkX, chunkZ)\<close> reads (lines 175--182).\<close>

definition columnHeight :: "int list list \<Rightarrow> int \<Rightarrow> int \<Rightarrow> nat \<Rightarrow> nat \<Rightarrow> int option" where
  "columnHeight hm chunkX chunkZ x z =
     (let worldX = chunkX * CHUNK_SIZE + int x;
          worldZ = chunkZ * CHUNK_SIZE + int z;
          wrappedX = wrap worldX;
          wrappedZ = wrap worldZ
      in heightAt hm wrappedZ wrappedX)"

text \<open>The loops over \<open>x\<close> and over \<open>z\<close> of \<open>generateChunk\<close> (lines 173--189).\<close>

function chunkXLoop ::
  "(int \<Rightarrow> Color) \<Rightarrow> int list list \<Rightarrow> int \<Rightarrow> int \<Rightarrow> nat \<Rightarrow> nat \<Rightarrow> Buffers \<Rightarrow> Buffers option" where
  "chunkXLoop setHex hm chunkX chunkZ z x b =
     (if x < CHUNK_SIZE then
        (case columnHeight hm chunkX chunkZ x z of
           None \<Rightarrow> None
         | Some height \<Rightarrow>
             chunkXLoop setHex hm chunkX chunkZ z (x + 1)
               (voxelLoop setHex b (chunkX * CHUNK_SIZE + int x) (chunkZ * CHUNK_SIZE + int z)
                  height 0))
      else Some b)"
  by pat_completeness auto
termination
  by (relation "measure (\<lambda>(setHex, hm, chunkX, chunkZ, z, x, b). CHUNK_SIZE - x)") auto

declare chunkXLoop.simps [simp del]

function chunkZLoop ::
  "(int \<Rightarrow> Color) \<Rightarrow> int list list \<Rightarrow> int \<Rightarrow> int \<Rightarrow> nat \<Rightarrow> Buffers \<Rightarrow> Buffers option" where
  "chunkZLoop setHex hm chunkX chunkZ z b =
     (if z < CHUNK_SIZE then
        (case chunkXLoop setHex hm chunkX chunkZ z 0 b of
           None \<Rightarrow> None
         | Some b' \<Rightarrow> chunkZLoop setHex hm chunkX chunkZ (z + 1) b')
      else Some b)"
  by pat_completeness auto
termination
  by (relation "measure (\<lambda>(setHex, hm, chunkX, chunkZ, z, b). CHUNK_SIZE - z)") auto

declare chunkZLoop.simps [simp del]

text \<open>Lines 168--189 of \<open>generateChunk\<close>: the three arrays of the chunk, filled.\<close>

definition chunkBuffers :: "(int \<Rightarrow> Color) \<Rightarrow> int list list \<Rightarrow> int \<Rightarrow> int \<Rightarrow> Buffers option" where
  "chunkBuffers setHex hm chunkX chunkZ = chunkZLoop setHex hm chunkX chunkZ 0 emptyBuffers"

section \<open>main.js: the world, chunk loading and the player\<close>

text \<open>
  \<open>THREE.Vector3\<close> belongs to the three.js library: \<open>length\<close> (here \<open>vlength\<close>) is
  the Euclidean length, and \<open>normalize\<close> (here \<open>vnormalize\<close>) multiplies by the inverse
  of the length, or of \<open>1\<close> when the length is \<open>0\<close>.
\<close>

record Vector3 =
  vx :: real
  vy :: real
  vz :: real

definition vlength :: "Vector3 \<Rightarrow> real" where
  "vlength v = sqrt (vx v * vx v + vy v * vy v + vz v * vz v)"

definition vnormalize :: "Vector3 \<Rightarrow> Vector3" where
  "vnormalize v =
     (let scalar = (if vlength v = 0 then 1 else vlength v)
      in \<lparr>vx = vx v * (1 / scalar), vy = vy v * (1 / scalar), vz = vz v * (1 / scalar)\<rparr>)"

record Capsule =
  capsulePosition :: Vector3
  capsuleRotationY :: real

record Player =
  position :: Vector3
  velocity :: Vector3
  rotation :: real
  capsule :: "Capsule option"

record Mouse =
  mouseX :: real
  mouseY :: real
  sensitivity :: real

text \<open>
  The fields of \<open>VoxelWorld\<close> that the modelled methods read or write.  A mesh is the
  arrays it is built from; \<open>sceneMeshes\<close> are the chunk meshes added to the scene, in
  order; the key \<open>`${cx},${cz}`\<close> of \<open>chunks\<close> is the pair of chunk coordinates.
\<close>

record VoxelWorld =
  player :: Player
  keys :: "string \<rightharpoonup> bool"
  mouse :: Mouse
  perlin :: PerlinNoise
  chunks :: "int \<times> int \<rightharpoonup> Buffers"
  heightMap :: "int list list"
  sceneMeshes :: "Buffers list"

text \<open>Lines 191--205 of \<open>generateChunk\<close>: a chunk with no vertex is not stored.\<close>

definition generateChunk :: "(int \<Rightarrow> Color) \<Rightarrow> VoxelWorld \<Rightarrow> int \<Rightarrow> int \<Rightarrow> VoxelWorld option" where
  "generateChunk setHex w chunkX chunkZ =
     (case chunkBuffers setHex (heightMap w) chunkX chunkZ of
        None \<Rightarrow> None
      | Some mesh \<Rightarrow>
          Some (if length (positions mesh) > 0
                then w\<lparr>chunks := (chunks w)((chunkX, chunkZ) \<mapsto> mesh),
                       sceneMeshes := sceneMeshes w @ [mesh]\<rparr>
                else w))"

text \<open>The loops over \<open>cx\<close> and over \<open>cz\<close> of \<open>updateChunks\<close>.\<close>

function updateChunksX ::
  "(int \<Rightarrow> Color) \<Rightarrow> VoxelWorld \<Rightarrow> int \<Rightarrow> int \<Rightarrow> int \<Rightarrow> VoxelWorld option" where
  "updateChunksX setHex w playerChunkX cz cx =
     (if cx \<le> playerChunkX + RENDER_DISTANCE then
        (if chunks w (cx, cz) \<noteq> None then updateChunksX setHex w playerChunkX cz (cx + 1)
         else (case generateChunk setHex w cx cz of
                 None \<Rightarrow> None
               | Some w' \<Rightarrow> updateChunksX setHex w' playerChunkX cz (cx + 1)))
      else Some w)"
  by pat_completeness auto
termination
  by (relation "measure (\<lambda>(setHex, w, playerChunkX, cz, cx).
        nat (playerChunkX + RENDER_DISTANCE + 1 - cx))") auto

declare updateChunksX.simps [simp del]

function updateChunksZ ::
  "(int \<Rightarrow> Color) \<Rightarrow> VoxelWorld \<Rightarrow> int \<Rightarrow> int \<Rightarrow> int \<Rightarrow> VoxelWorld option" where
  "updateChunksZ setHex w playerChunkX playerChunkZ cz =
     (if cz \<le> playerChunkZ + RENDER_DISTANCE then
        (case updateChunksX setHex w playerChunkX cz (playerChunkX - RENDER_DISTANCE) of
           None \<Rightarrow> None
         | Some w' \<Rightarrow> updateChunksZ setHex w' playerChunkX playerChunkZ (cz + 1))
      else Some w)"
  by pat_completeness auto
termination
  by (relation "measure (\<lambda>(setHex, w, playerChunkX, playerChunkZ, cz).
        nat (playerChunkZ + RENDER_DISTANCE + 1 - cz))") auto

declare updateChunksZ.simps [simp del]

definition updateChunks :: "(int \<Rightarrow> Color) \<Rightarrow> VoxelWorld \<Rightarrow> VoxelWorld option" where
  "updateChunks setHex w =
     (let playerChunkX = \<lfloor>vx (position (player w)) / CHUNK_SIZE\<rfloor>;
          playerChunkZ = \<lfloor>vz (position (player w)) / CHUNK_SIZE\<rfloor>
      in updateChunksZ setHex w playerChunkX playerChunkZ (playerChunkZ - RENDER_DISTANCE))"

text \<open>\<open>this.keys[k]\<close> is tested for truthiness: a key never pressed is \<open>undefined\<close>.\<close>

definition keyHeld :: "(string \<rightharpoonup> bool) \<Rightarrow> string \<Rightarrow> bool" where
  "keyHeld ks k = (ks k = Some True)"

text \<open>Lines 288--293 of \<open>updatePlayer\<close>: the movement vector of the held keys.\<close>

definition moveIntent :: "(string \<rightharpoonup> bool) \<Rightarrow> Vector3" where
  "moveIntent ks =
     (let m0 = \<lparr>vx = 0, vy = 0, vz = 0\<rparr>;
          m1 = (if keyHeld ks ''w'' then m0\<lparr>vz := vz m0 - 1\<rparr> else m0);
          m2 = (if keyHeld ks ''s'' then m1\<lparr>vz := vz m1 + 1\<rparr> else m1);
          m3 = (if keyHeld ks ''a'' then m2\<lparr>vx := vx m2 - 1\<rparr> else m2);
          m4 = (if keyHeld ks ''d'' then m3\<lparr>vx := vx m3 + 1\<rparr> else m3)
      in m4)"

text \<open>Lines 295--305: the position after the movement of this tick, before wrapping.\<close>

definition movePlayer :: "Player \<Rightarrow> Vector3 \<Rightarrow> real \<Rightarrow> Player" where
  "movePlayer pl moveVector deltaTime =
     (if vlength moveVector > 0 then
        (let m = vnormalize moveVector;
             rotatedMoveX = vx m * cos (rotation pl) - vz m * sin (rotation pl);
             rotatedMoveZ = vx m * sin (rotation pl) + vz m * cos (rotation pl);
             pos = position pl
         in pl\<lparr>position := pos\<lparr>vx := vx pos + rotatedMoveX * MOVE_SPEED * deltaTime,
                                 vz := vz pos + rotatedMoveZ * MOVE_SPEED * deltaTime\<rparr>\<rparr>)
      else pl)"

text \<open>
  \<open>updatePlayer\<close>.  \<open>pointerLocked\<close> is the test
  \<open>document.pointerLockElement === this.renderer.domElement\<close>.
\<close>

definition updatePlayer :: "VoxelWorld \<Rightarrow> bool \<Rightarrow> real \<Rightarrow> VoxelWorld option" where
  "updatePlayer w pointerLocked deltaTime =
     (let pl0 = player w;
          pl1 = (if pointerLocked
                 then pl0\<lparr>rotation := rotation pl0 - mouseX (mouse w) * sensitivity (mouse w)\<rparr>
                 else pl0);
          mouse1 = (if pointerLocked then (mouse w)\<lparr>mouseX := 0, mouseY := 0\<rparr> else mouse w);
          pl2 = movePlayer pl1 (moveIntent (keys w)) deltaTime;
          x = wrapReal (vx (position pl2));
          z = wrapReal (vz (position pl2));
          heightX = jsRem \<lfloor>x\<rfloor> WORLD_SIZE;
          heightZ = jsRem \<lfloor>z\<rfloor> WORLD_SIZE
      in case heightAt (heightMap w) heightZ heightX of
           None \<Rightarrow> None
         | Some terrainHeight \<Rightarrow>
             (let pos = \<lparr>vx = x, vy = real_of_int terrainHeight + PLAYER_HEIGHT / 2, vz = z\<rparr>;
                  pl3 = pl2\<lparr>position := pos\<rparr>;
                  pl4 = pl3\<lparr>capsule :=
                          map_option (\<lambda>c. c\<lparr>capsulePosition := pos,
                                                capsuleRotationY := rotation pl3\<rparr>)
                            (capsule pl3)\<rparr>
              in Some (w\<lparr>player := pl4, mouse := mouse1\<rparr>)))"

text \<open>
  The constructor of \<open>VoxelWorld\<close> up to its call of \<open>init\<close> (lines 30--48): \<open>now\<close> is
  the value of \<open>Date.now()\<close> that seeds the noise.
\<close>

definition constructWorld :: "real \<Rightarrow> VoxelWorld" where
  "constructWorld now =
     (let (hm, p) = generateHeightMap (newPerlinNoise now)
      in \<lparr>player = \<lparr>position = \<lparr>vx = WORLD_SIZE / 2, vy = 50, vz = WORLD_SIZE / 2\<rparr>,
                      velocity = \<lparr>vx = 0, vy = 0, vz = 0\<rparr>,
                      rotation = 0,
                      capsule = None\<rparr>,
           keys = Map.empty,
           mouse = \<lparr>mouseX = 0, mouseY = 0, sensitivity = 0.002\<rparr>,
           perlin = p,
           chunks = Map.empty,
           heightMap = hm,
           sceneMeshes = []\<rparr>)"

definition createPlayer :: "VoxelWorld \<Rightarrow> VoxelWorld" where
  "createPlayer w =
     w\<lparr>player := (player w)\<lparr>capsule :=
          Some \<lparr>capsulePosition = position (player w), capsuleRotationY = 0\<rparr>\<rparr>\<rparr>"

text \<open>\<open>init\<close>, up to the start of the animation loop: the player and the first chunks.\<close>

definition init :: "(int \<Rightarrow> Color) \<Rightarrow> VoxelWorld \<Rightarrow> VoxelWorld option" where
  "init setHex w = updateChunks setHex (createPlayer w)"
section \<open>Notions the properties are stated with\<close>

subsection \<open>The values the noise functions compute\<close>

text \<open>
  What \<open>dotGridGradient\<close>, \<open>noise\<close>, the loop of \<open>octaveNoise\<close>, \<open>octaveNoise\<close> and the
  cell computation of \<open>generateHeightMap\<close> compute when every cache lookup misses, as
  functions of the seed.  They are not part of the program: the theorems relate the
  program to them.
\<close>

definition dotFormula :: "real \<Rightarrow> real \<Rightarrow> real \<Rightarrow> real \<Rightarrow> real \<Rightarrow> real" where
  "dotFormula s ix iy x y =
     (x - ix) * gx (computeGradient s ix iy) + (y - iy) * gy (computeGradient s ix iy)"

definition noiseFormula :: "real \<Rightarrow> real \<Rightarrow> real \<Rightarrow> real" where
  "noiseFormula s x y =
     (let x0 = of_int \<lfloor>x\<rfloor>; x1 = x0 + 1; y0 = of_int \<lfloor>y\<rfloor>; y1 = y0 + 1
      in interpolate
           (interpolate (dotFormula s x0 y0 x y) (dotFormula s x1 y0 x y) (x - x0))
           (interpolate (dotFormula s x0 y1 x y) (dotFormula s x1 y1 x y) (x - x0))
           (y - y0))"

function octaveFormula ::
  "real \<Rightarrow> real \<Rightarrow> real \<Rightarrow> int \<Rightarrow> real \<Rightarrow> int \<Rightarrow> real \<Rightarrow> real \<Rightarrow> real \<Rightarrow> real \<Rightarrow> real \<times> real" where
  "octaveFormula s x y octaves persistence i tot frequency amplitude maxValue =
     (if i < octaves then
        octaveFormula s x y octaves persistence (i + 1)
          (tot + noiseFormula s (x * frequency) (y * frequency) * amplitude)
          (frequency * 2) (amplitude * persistence) (maxValue + amplitude)
      else (tot, maxValue))"
  by pat_completeness auto
termination
  by (relation "measure (\<lambda>(s, x, y, octaves, persistence, i, r). nat (octaves - i))") auto

declare octaveFormula.simps [simp del]

definition octaveNoiseFormula :: "real \<Rightarrow> real \<Rightarrow> real \<Rightarrow> int \<Rightarrow> real \<Rightarrow> real" where
  "octaveNoiseFormula s x y octaves persistence =
     fst (octaveFormula s x y octaves persistence 0 0 1 1 0)
       / snd (octaveFormula s x y octaves persistence 0 0 1 1 0)"

definition heightFormula :: "real \<Rightarrow> real \<Rightarrow> int" where
  "heightFormula s x =
     \<lfloor>(octaveNoiseFormula s ((cos (x / WORLD_SIZE * 2 * pi) / (2 * pi) + 1) * 100)
          ((sin (x / WORLD_SIZE * 2 * pi) / (2 * pi) + 1) * 100) 4 0.5 + 1) * 10\<rfloor> + 5"

definition heightRow :: "real \<Rightarrow> int list" where
  "heightRow s = map (\<lambda>k. heightFormula s (real k)) [0..<WORLD_SIZE]"

text \<open>The weight \<open>3w\<^sup>2 - 2w\<^sup>3\<close> that \<open>interpolate\<close> gives to its second argument.\<close>

definition smooth :: "real \<Rightarrow> real" where
  "smooth w = (3 - w * 2) * w * w"

subsection \<open>States of a \<open>PerlinNoise\<close> object\<close>

text \<open>
  The invariant of the two caches: an entry holds the value that a miss would compute.
\<close>

definition cachesValid :: "PerlinNoise \<Rightarrow> bool" where
  "cachesValid p \<longleftrightarrow>
     (\<forall>ix iy g. gradients p (ix, iy) = Some g \<longrightarrow> g = computeGradient (seed p) ix iy) \<and>
     (\<forall>x y v. memory p (x, y) = Some v \<longrightarrow> v = noiseFormula (seed p) x y)"

text \<open>
  The states a \<open>PerlinNoise\<close> object constructed with seed \<open>s\<close> can be in: the
  constructor's, and the state that any method leaves behind.
\<close>

inductive reachable :: "real \<Rightarrow> PerlinNoise \<Rightarrow> bool" for s :: real where
  constructed: "reachable s (newPerlinNoise s)"
| after_randomGradient: "reachable s p \<Longrightarrow> reachable s (snd (randomGradient p ix iy))"
| after_dotGridGradient: "reachable s p \<Longrightarrow> reachable s (snd (dotGridGradient p ix iy x y))"
| after_noise: "reachable s p \<Longrightarrow> reachable s (snd (noise p x y))"
| after_octaveNoise: "reachable s p \<Longrightarrow> reachable s (snd (octaveNoise p x y octaves persistence))"

subsection \<open>Height maps, meshes and worlds\<close>

text \<open>A height map as \<open>generateHeightMap\<close> builds it: \<open>WORLD_SIZE\<close> rows of \<open>WORLD_SIZE\<close> cells.\<close>

definition wfHeightMap :: "int list list \<Rightarrow> bool" where
  "wfHeightMap hm \<longleftrightarrow> length hm = WORLD_SIZE \<and> (\<forall>row \<in> set hm. length row = WORLD_SIZE)"

text \<open>The cell of the height map that column \<open>(x, z)\<close> of a chunk reads.\<close>

definition columnCell :: "int list list \<Rightarrow> int \<Rightarrow> int \<Rightarrow> nat \<Rightarrow> nat \<Rightarrow> int" where
  "columnCell hm chunkX chunkZ x z =
     hm ! nat (wrap (chunkZ * CHUNK_SIZE + int z)) ! nat (wrap (chunkX * CHUNK_SIZE + int x))"

text \<open>
  The three arrays advance together, by whole vertices: three numbers a vertex in each.
\<close>

definition wfBuffers :: "Buffers \<Rightarrow> bool" where
  "wfBuffers b \<longleftrightarrow>
     length (normals b) mod 3 = 0 \<and> length (positions b) = length (normals b)
     \<and> length (colors b) = length (normals b)"

text \<open>
  The vertices of a mesh are counted on its \<open>normals\<close> array, read three numbers at a
  time: a vertex belongs to a top face when its normal is \<open>(0, 1, 0)\<close>, to a side face
  otherwise.
\<close>

fun triples :: "'a list \<Rightarrow> ('a \<times> 'a \<times> 'a) list" where
  "triples (a # b # c # xs) = (a, b, c) # triples xs"
| "triples xs = []"

definition topFaceVertices :: "Buffers \<Rightarrow> nat" where
  "topFaceVertices b = length (filter (\<lambda>n. n = (0, 1, 0)) (triples (normals b)))"

definition sideFaceVertices :: "Buffers \<Rightarrow> nat" where
  "sideFaceVertices b = length (filter (\<lambda>n. n \<noteq> (0, 1, 0)) (triples (normals b)))"

text \<open>The normals of the \<open>4 * 6\<close> vertices of the side faces, in the order pushed.\<close>

definition sideNormals :: "(real \<times> real \<times> real) list" where
  "sideNormals = replicate 6 (0, 0, 1) @ replicate 6 (0, 0, - 1)
                 @ replicate 6 (- 1, 0, 0) @ replicate 6 (1, 0, 0)"

text \<open>
  A chunk key needs no more work from \<open>updateChunks\<close>: it is stored, or its mesh has no
  vertex (and \<open>generateChunk\<close> stores nothing for it).
\<close>

definition settled :: "(int \<Rightarrow> Color) \<Rightarrow> VoxelWorld \<Rightarrow> int \<times> int \<Rightarrow> bool" where
  "settled setHex w k \<longleftrightarrow>
     chunks w k \<noteq> None \<or>
     (\<exists>mesh. chunkBuffers setHex (heightMap w) (fst k) (snd k) = Some mesh \<and> positions mesh = [])"

text \<open>
  A value for the parameter \<open>setHex\<close>, used where a theorem is instantiated: the three
  bytes of the colour code, each scaled to \<open>[0, 1]\<close>.
\<close>

definition plainSetHex :: "int \<Rightarrow> Color" where
  "plainSetHex hex =
     \<lparr>cr = real_of_int (hex div 65536 mod 256) / 255,
      cg = real_of_int (hex div 256 mod 256) / 255,
      cb = real_of_int (hex mod 256) / 255\<rparr>"

subsection \<open>The vertices of a mesh, as a list\<close>

text \<open>
  A vertex is a position and a normal; the vertices of a mesh are its \<open>positions\<close> and
  \<open>normals\<close> arrays read three numbers at a time, side by side.
\<close>

type_synonym vertex = "(real \<times> real \<times> real) \<times> (real \<times> real \<times> real)"

definition vertices :: "Buffers \<Rightarrow> vertex list" where
  "vertices b = zip (triples (positions b)) (triples (normals b))"

text \<open>
  The six vertices of the two triangles of a quadrilateral with the corners \<open>c0\<close>,
  \<open>c1\<close>, \<open>c2\<close>, \<open>c3\<close>: \<open>c0 c1 c2\<close> and \<open>c0 c2 c3\<close>.
\<close>

definition quad ::
  "(real \<times> real \<times> real) list \<Rightarrow> real \<times> real \<times> real \<Rightarrow> vertex list" where
  "quad corners n =
     map (\<lambda>k. (corners ! k, n)) [0, 1, 2, 0, 2, 3]"

text \<open>
  The top face of the voxel whose lower corner is \<open>(x, y, z)\<close>, and its four side faces:
  front, back, left, right.
\<close>

definition topFaceAt :: "int \<Rightarrow> int \<Rightarrow> int \<Rightarrow> vertex list" where
  "topFaceAt xi yi zi =
     (let x = real_of_int xi; y = real_of_int yi; z = real_of_int zi
      in quad [(x, y + 1, z), (x + 1, y + 1, z), (x + 1, y + 1, z + 1), (x, y + 1, z + 1)]
           (0, 1, 0))"

definition sideFacesAt :: "int \<Rightarrow> int \<Rightarrow> int \<Rightarrow> vertex list" where
  "sideFacesAt xi yi zi =
     (let x = real_of_int xi; y = real_of_int yi; z = real_of_int zi
      in quad [(x, y, z + 1), (x + 1, y, z + 1), (x + 1, y + 1, z + 1), (x, y + 1, z + 1)]
           (0, 0, 1)
       @ quad [(x + 1, y, z), (x, y, z), (x, y + 1, z), (x + 1, y + 1, z)] (0, 0, - 1)
       @ quad [(x, y, z), (x, y, z + 1), (x, y + 1, z + 1), (x, y + 1, z)] (- 1, 0, 0)
       @ quad [(x + 1, y, z + 1), (x + 1, y, z), (x + 1, y + 1, z), (x + 1, y + 1, z + 1)]
           (1, 0, 0))"

text \<open>
  What the mesh is to hold for a voxel and for a column of height \<open>height\<close>: the top
  face of every voxel \<open>y = 0, \<dots>, height - 1\<close> from the bottom up, the topmost voxel
  \<open>y = height - 1\<close>, and no other, followed by its side faces.
\<close>

definition voxelVertices :: "int \<Rightarrow> int \<Rightarrow> int \<Rightarrow> int \<Rightarrow> vertex list" where
  "voxelVertices x y z height =
     topFaceAt x y z @ (if y = height - 1 then sideFacesAt x y z else [])"

definition columnVertices :: "int \<Rightarrow> int \<Rightarrow> int \<Rightarrow> vertex list" where
  "columnVertices x z height =
     concat (map (\<lambda>k. voxelVertices x (int k) z height) [0..<nat height])"

definition isSideVertex :: "vertex \<Rightarrow> bool" where
  "isSideVertex v \<longleftrightarrow> snd v \<noteq> (0, 1, 0)"

subsection \<open>The noise with overflow\<close>








definition hugeInput :: real where
  "hugeInput = 10 ^ 308"
section \<open>The noise functions\<close>

subsection \<open>The caches hold what a miss computes\<close>

text \<open>
  Each method, started in a state whose caches are valid, returns the value of its
  formula and leaves a state whose caches are valid, with the same seed.
\<close>

lemma cachesValid_new: "cachesValid (newPerlinNoise s)"
  by (simp add: cachesValid_def newPerlinNoise_def)

lemma randomGradient_valid:
  assumes "cachesValid p"
  obtains p' where "randomGradient p ix iy = (computeGradient (seed p) ix iy, p')"
    and "cachesValid p'" and "seed p' = seed p"
proof (cases "gradients p (ix, iy)")
  case (Some g)
  then have "g = computeGradient (seed p) ix iy"
    using assms by (simp add: cachesValid_def)
  then have "randomGradient p ix iy = (computeGradient (seed p) ix iy, p)"
    using Some by (simp add: randomGradient_def)
  then show ?thesis using that assms by simp
next
  case None
  let ?g = "computeGradient (seed p) ix iy"
  let ?p' = "p\<lparr>gradients := (gradients p)((ix, iy) \<mapsto> ?g)\<rparr>"
  have "randomGradient p ix iy = (?g, ?p')"
    using None by (simp add: randomGradient_def Let_def)
  moreover have "cachesValid ?p'"
    using assms by (simp add: cachesValid_def)
  moreover have "seed ?p' = seed p" by simp
  ultimately show ?thesis using that by blast
qed

lemma dotGridGradient_valid:
  assumes "cachesValid p"
  obtains p' where "dotGridGradient p ix iy x y = (dotFormula (seed p) ix iy x y, p')"
    and "cachesValid p'" and "seed p' = seed p"
proof -
  obtain p' where "randomGradient p ix iy = (computeGradient (seed p) ix iy, p')"
    and "cachesValid p'" and "seed p' = seed p"
    using assms by (rule randomGradient_valid)
  then show ?thesis
    using that by (simp add: dotGridGradient_def dotFormula_def)
qed

lemma noise_valid:
  assumes "cachesValid p"
  obtains p' where "noise p x y = (noiseFormula (seed p) x y, p')"
    and "cachesValid p'" and "seed p' = seed p"
proof (cases "memory p (x, y)")
  case (Some v)
  then have "noise p x y = (noiseFormula (seed p) x y, p)"
    using assms by (simp add: noise_def cachesValid_def)
  then show ?thesis using that assms by simp
next
  case None
  let ?x0 = "of_int \<lfloor>x\<rfloor> :: real" and ?y0 = "of_int \<lfloor>y\<rfloor> :: real"
  obtain p1 where 1: "dotGridGradient p ?x0 ?y0 x y = (dotFormula (seed p) ?x0 ?y0 x y, p1)"
    and v1: "cachesValid p1" and s1: "seed p1 = seed p"
    using assms by (rule dotGridGradient_valid)
  obtain p2 where 2: "dotGridGradient p1 (?x0 + 1) ?y0 x y = (dotFormula (seed p1) (?x0 + 1) ?y0 x y, p2)"
    and v2: "cachesValid p2" and s2: "seed p2 = seed p1"
    using v1 by (rule dotGridGradient_valid)
  obtain p3 where 3: "dotGridGradient p2 ?x0 (?y0 + 1) x y = (dotFormula (seed p2) ?x0 (?y0 + 1) x y, p3)"
    and v3: "cachesValid p3" and s3: "seed p3 = seed p2"
    using v2 by (rule dotGridGradient_valid)
  obtain p4 where 4: "dotGridGradient p3 (?x0 + 1) (?y0 + 1) x y = (dotFormula (seed p3) (?x0 + 1) (?y0 + 1) x y, p4)"
    and v4: "cachesValid p4" and s4: "seed p4 = seed p3"
    using v3 by (rule dotGridGradient_valid)
  let ?v = "noiseFormula (seed p) x y"
  let ?p' = "p4\<lparr>memory := (memory p4)((x, y) \<mapsto> ?v)\<rparr>"
  have "noise p x y = (?v, ?p')"
    using None 1 2 3 4 s1 s2 s3 s4 by (simp add: noise_def noiseFormula_def Let_def)
  moreover have "cachesValid ?p'"
    using v4 s1 s2 s3 s4 by (auto simp: cachesValid_def)
  moreover have "seed ?p' = seed p"
    using s1 s2 s3 s4 by simp
  ultimately show ?thesis using that by blast
qed

lemma octaveLoop_valid:
  assumes "cachesValid p"
  obtains p' where
    "octaveLoop p x y octaves persistence i tot frequency amplitude maxValue
       = (octaveFormula (seed p) x y octaves persistence i tot frequency amplitude maxValue, p')"
    and "cachesValid p'" and "seed p' = seed p"
proof -
  have "cachesValid p \<Longrightarrow> \<exists>p'. octaveLoop p x y octaves persistence i tot frequency amplitude maxValue
       = (octaveFormula (seed p) x y octaves persistence i tot frequency amplitude maxValue, p')
       \<and> cachesValid p' \<and> seed p' = seed p"
  proof (induction p x y octaves persistence i tot frequency amplitude maxValue
         rule: octaveLoop.induct)
    case (1 p x y octaves persistence i tot frequency amplitude maxValue)
    show ?case
    proof (cases "i < octaves")
      case False
      then show ?thesis
        using "1.prems" by (simp add: octaveLoop.simps octaveFormula.simps)
    next
      case True
      obtain p1 where n: "noise p (x * frequency) (y * frequency)
            = (noiseFormula (seed p) (x * frequency) (y * frequency), p1)"
        and v1: "cachesValid p1" and s1: "seed p1 = seed p"
        using "1.prems" by (rule noise_valid)
      from "1.IH"[OF True n[symmetric] refl v1] s1
      obtain p' where "octaveLoop p1 x y octaves persistence (i + 1)
            (tot + noiseFormula (seed p) (x * frequency) (y * frequency) * amplitude)
            (frequency * 2) (amplitude * persistence) (maxValue + amplitude)
          = (octaveFormula (seed p) x y octaves persistence (i + 1)
            (tot + noiseFormula (seed p) (x * frequency) (y * frequency) * amplitude)
            (frequency * 2) (amplitude * persistence) (maxValue + amplitude), p')"
        and "cachesValid p'" and "seed p' = seed p"
        by auto
      then show ?thesis
        using True n
        by (subst octaveLoop.simps, subst octaveFormula.simps) simp
    qed
  qed
  then show ?thesis using assms that by blast
qed

subsection \<open>The range of the noise\<close>

text \<open>
  A gradient has components in \<open>[-1, 1]\<close>, so a corner's dot product is bounded by the
  sum of the distances to the corner along the two axes.  Blending with the weights
  \<open>smooth\<close> keeps the bound below \<open>1\<close>, because \<open>u + (1 - 2u) * smooth u \<le> 1/2\<close> on
  \<open>[0, 1]\<close>.
\<close>

lemma computeGradient_le_one:
  "\<bar>gx (computeGradient s ix iy)\<bar> \<le> 1" "\<bar>gy (computeGradient s ix iy)\<bar> \<le> 1"
  by (simp_all add: computeGradient_def Let_def)

lemma dotFormula_bound: "\<bar>dotFormula s ix iy x y\<bar> \<le> \<bar>x - ix\<bar> + \<bar>y - iy\<bar>"
proof -
  let ?g = "computeGradient s ix iy"
  have "\<bar>(x - ix) * gx ?g\<bar> \<le> \<bar>x - ix\<bar> * 1"
    unfolding abs_mult by (rule mult_left_mono) (simp_all add: computeGradient_le_one)
  moreover have "\<bar>(y - iy) * gy ?g\<bar> \<le> \<bar>y - iy\<bar> * 1"
    unfolding abs_mult by (rule mult_left_mono) (simp_all add: computeGradient_le_one)
  ultimately show ?thesis
    unfolding dotFormula_def
    using abs_triangle_ineq[of "(x - ix) * gx ?g" "(y - iy) * gy ?g"] by linarith
qed

lemma interpolate_smooth: "interpolate a0 a1 w = a0 * (1 - smooth w) + a1 * smooth w"
  by (simp add: interpolate_def smooth_def algebra_simps)

lemma smooth_range:
  assumes "0 \<le> w" "w \<le> 1"
  shows "0 \<le> smooth w" "smooth w \<le> 1"
proof -
  show "0 \<le> smooth w"
    unfolding smooth_def using assms by (intro mult_nonneg_nonneg) simp_all
  have "1 - smooth w = (1 - w) * (1 - w) * (1 + 2 * w)"
    by (simp add: smooth_def algebra_simps)
  moreover have "0 \<le> (1 - w) * (1 - w) * (1 + 2 * w)"
    using assms by (intro mult_nonneg_nonneg) simp_all
  ultimately show "smooth w \<le> 1" by linarith
qed

lemma interpolate_bound:
  assumes "0 \<le> w" "w \<le> 1" "\<bar>a0\<bar> \<le> b0" "\<bar>a1\<bar> \<le> b1"
  shows "\<bar>interpolate a0 a1 w\<bar> \<le> b0 + (b1 - b0) * smooth w"
proof -
  have s: "0 \<le> smooth w" "0 \<le> 1 - smooth w"
    using smooth_range[OF assms(1,2)] by simp_all
  have "\<bar>a0 * (1 - smooth w)\<bar> \<le> b0 * (1 - smooth w)"
    unfolding abs_mult using s assms(3) by (simp add: mult_right_mono)
  moreover have "\<bar>a1 * smooth w\<bar> \<le> b1 * smooth w"
    unfolding abs_mult using s assms(4) by (simp add: mult_right_mono)
  ultimately have "\<bar>interpolate a0 a1 w\<bar> \<le> b0 * (1 - smooth w) + b1 * smooth w"
    unfolding interpolate_smooth by linarith
  then show ?thesis by (simp add: algebra_simps)
qed

lemma smooth_half:
  assumes "0 \<le> u" "u \<le> 1"
  shows "u + (1 - 2 * u) * smooth u \<le> 1 / 2"
proof -
  have "1 / 2 - (u + (1 - 2 * u) * smooth u)
        = (1 - 2 * u) * (1 - 2 * u) * (1 / 2 + u * (1 - u))"
    by (simp add: smooth_def algebra_simps)
  moreover have "0 \<le> (1 - 2 * u) * (1 - 2 * u) * (1 / 2 + u * (1 - u))"
  proof (rule mult_nonneg_nonneg)
    show "0 \<le> (1 - 2 * u) * (1 - 2 * u)" by simp
    have "0 \<le> u * (1 - u)" using assms by (intro mult_nonneg_nonneg) simp_all
    then show "0 \<le> 1 / 2 + u * (1 - u)" by linarith
  qed
  ultimately show ?thesis by linarith
qed

lemma noiseFormula_bound: "\<bar>noiseFormula s x y\<bar> \<le> 1"
proof -
  define x0 :: real where "x0 = of_int \<lfloor>x\<rfloor>"
  define y0 :: real where "y0 = of_int \<lfloor>y\<rfloor>"
  define sx where "sx = x - x0"
  define sy where "sy = y - y0"
  have sx: "0 \<le> sx" "sx \<le> 1" and sy: "0 \<le> sy" "sy \<le> 1"
    unfolding sx_def sy_def x0_def y0_def by linarith+
  have xs: "x - x0 = sx" "x - (x0 + 1) = sx - 1" and ys: "y - y0 = sy" "y - (y0 + 1) = sy - 1"
    by (simp_all add: sx_def sy_def)
  have n0: "\<bar>dotFormula s x0 y0 x y\<bar> \<le> sx + sy"
    using dotFormula_bound[of s x0 y0 x y] sx sy unfolding xs ys by simp
  have n1: "\<bar>dotFormula s (x0 + 1) y0 x y\<bar> \<le> (1 - sx) + sy"
    using dotFormula_bound[of s "x0 + 1" y0 x y] sx sy unfolding xs ys by simp
  have n2: "\<bar>dotFormula s x0 (y0 + 1) x y\<bar> \<le> sx + (1 - sy)"
    using dotFormula_bound[of s x0 "y0 + 1" x y] sx sy unfolding xs ys by simp
  have n3: "\<bar>dotFormula s (x0 + 1) (y0 + 1) x y\<bar> \<le> (1 - sx) + (1 - sy)"
    using dotFormula_bound[of s "x0 + 1" "y0 + 1" x y] sx sy unfolding xs ys by simp
  let ?ix0 = "interpolate (dotFormula s x0 y0 x y) (dotFormula s (x0 + 1) y0 x y) sx"
  let ?ix1 = "interpolate (dotFormula s x0 (y0 + 1) x y) (dotFormula s (x0 + 1) (y0 + 1) x y) sx"
  have hx: "sx + (1 - 2 * sx) * smooth sx \<le> 1 / 2"
    using sx by (rule smooth_half)
  have "\<bar>?ix0\<bar> \<le> (sx + sy) + ((1 - sx) + sy - (sx + sy)) * smooth sx"
    using sx n0 n1 by (rule interpolate_bound)
  also have "\<dots> = sy + (sx + (1 - 2 * sx) * smooth sx)"
    by (simp add: algebra_simps)
  finally have i0: "\<bar>?ix0\<bar> \<le> sy + 1 / 2"
    using hx by linarith
  have "\<bar>?ix1\<bar> \<le> (sx + (1 - sy)) + ((1 - sx) + (1 - sy) - (sx + (1 - sy))) * smooth sx"
    using sx n2 n3 by (rule interpolate_bound)
  also have "\<dots> = (1 - sy) + (sx + (1 - 2 * sx) * smooth sx)"
    by (simp add: algebra_simps)
  finally have i1: "\<bar>?ix1\<bar> \<le> (1 - sy) + 1 / 2"
    using hx by linarith
  have "\<bar>interpolate ?ix0 ?ix1 sy\<bar> \<le> (sy + 1 / 2) + ((1 - sy) + 1 / 2 - (sy + 1 / 2)) * smooth sy"
    using sy i0 i1 by (rule interpolate_bound)
  also have "\<dots> = 1 / 2 + (sy + (1 - 2 * sy) * smooth sy)"
    by (simp add: algebra_simps)
  also have "\<dots> \<le> 1"
    using smooth_half[OF sy] by linarith
  finally show ?thesis
    by (simp add: noiseFormula_def Let_def x0_def y0_def sx_def sy_def)
qed

lemma octaveFormula_bound:
  "0 \<le> amplitude \<Longrightarrow> 0 \<le> persistence \<Longrightarrow> \<bar>tot\<bar> \<le> maxValue \<Longrightarrow>
   \<bar>fst (octaveFormula s x y octaves persistence i tot frequency amplitude maxValue)\<bar>
     \<le> snd (octaveFormula s x y octaves persistence i tot frequency amplitude maxValue)"
proof (induction s x y octaves persistence i tot frequency amplitude maxValue
       rule: octaveFormula.induct)
  case (1 s x y octaves persistence i tot frequency amplitude maxValue)
  show ?case
  proof (cases "i < octaves")
    case False
    then show ?thesis using "1.prems" by (simp add: octaveFormula.simps)
  next
    case True
    let ?n = "noiseFormula s (x * frequency) (y * frequency)"
    have "\<bar>?n\<bar> * amplitude \<le> 1 * amplitude"
      using noiseFormula_bound[of s "x * frequency" "y * frequency"] "1.prems"(1)
      by (rule mult_right_mono)
    then have "\<bar>?n * amplitude\<bar> \<le> amplitude"
      using "1.prems"(1) by (simp add: abs_mult)
    then have "\<bar>tot + ?n * amplitude\<bar> \<le> maxValue + amplitude"
      using "1.prems"(3) by linarith
    moreover have "0 \<le> amplitude * persistence"
      using "1.prems" by simp
    ultimately show ?thesis
      using "1.IH"[OF True] "1.prems"(2) True
      by (subst (1 2) octaveFormula.simps) simp
  qed
qed


lemma octaveNoise_range:
  assumes "cachesValid p" "0 \<le> persistence"
  shows "\<bar>fst (octaveNoise p x y octaves persistence)\<bar> \<le> 1"
proof -
  let ?r = "octaveFormula (seed p) x y octaves persistence 0 0 1 1 0"
  obtain p' where l: "octaveLoop p x y octaves persistence 0 0 1 1 0 = (?r, p')"
    using assms(1) by (rule octaveLoop_valid) blast
  have b: "\<bar>fst ?r\<bar> \<le> snd ?r"
    by (rule octaveFormula_bound) (use assms in simp_all)
  have m: "0 \<le> snd ?r"
    using b by linarith
  have "\<bar>fst ?r / snd ?r\<bar> \<le> 1"
  proof (cases "snd ?r = 0")
    case True
    then show ?thesis by simp
  next
    case False
    with m have "0 < snd ?r" by simp
    then show ?thesis using b by (simp add: abs_if field_simps split: if_splits)
  qed
  then show ?thesis
    using l by (simp add: octaveNoise_def split_beta)
qed

subsection \<open>The height map that is built\<close>

lemma octaveNoise_valid:
  assumes "cachesValid p"
  obtains p' where
    "octaveNoise p x y octaves persistence = (octaveNoiseFormula (seed p) x y octaves persistence, p')"
    and "cachesValid p'" and "seed p' = seed p"
proof -
  obtain p' where "octaveLoop p x y octaves persistence 0 0 1 1 0
       = (octaveFormula (seed p) x y octaves persistence 0 0 1 1 0, p')"
    and "cachesValid p'" and "seed p' = seed p"
    using assms by (rule octaveLoop_valid)
  then show ?thesis
    using that by (simp add: octaveNoise_def octaveNoiseFormula_def split_beta)
qed

lemma reachable_valid: "reachable s p \<Longrightarrow> cachesValid p \<and> seed p = s"
proof (induction rule: reachable.induct)
  case constructed
  then show ?case by (simp add: cachesValid_new) (simp add: newPerlinNoise_def)
next
  case (after_randomGradient p ix iy)
  then show ?case by (metis randomGradient_valid snd_conv)
next
  case (after_dotGridGradient p ix iy x y)
  then show ?case by (metis dotGridGradient_valid snd_conv)
next
  case (after_noise p x y)
  then show ?case by (metis noise_valid snd_conv)
next
  case (after_octaveNoise p x y octaves persistence)
  then show ?case by (metis octaveNoise_valid snd_conv)
qed

lemma cellHeight_valid:
  assumes "cachesValid p"
  obtains p' where "cellHeight p x z = (heightFormula (seed p) x, p')"
    and "cachesValid p'" and "seed p' = seed p"
proof -
  obtain p' where "octaveNoise p ((cos (x / WORLD_SIZE * 2 * pi) / (2 * pi) + 1) * 100)
          ((sin (x / WORLD_SIZE * 2 * pi) / (2 * pi) + 1) * 100) 4 0.5
        = (octaveNoiseFormula (seed p) ((cos (x / WORLD_SIZE * 2 * pi) / (2 * pi) + 1) * 100)
          ((sin (x / WORLD_SIZE * 2 * pi) / (2 * pi) + 1) * 100) 4 0.5, p')"
    and "cachesValid p'" and "seed p' = seed p"
    using assms by (rule octaveNoise_valid)
  then show ?thesis
    using that by (simp add: cellHeight_def heightFormula_def Let_def)
qed

lemma heightRowLoop_valid:
  "cachesValid p \<Longrightarrow> x \<le> WORLD_SIZE \<Longrightarrow>
   \<exists>p'. heightRowLoop p z x row
          = (row @ map (\<lambda>k. heightFormula (seed p) (real k)) [x..<WORLD_SIZE], p')
        \<and> cachesValid p' \<and> seed p' = seed p"
proof (induction p z x row rule: heightRowLoop.induct)
  case (1 p z x row)
  show ?case
  proof (cases "x < WORLD_SIZE")
    case False
    with "1.prems" show ?thesis by (simp add: heightRowLoop.simps)
  next
    case True
    obtain p1 where c: "cellHeight p (real x) (real z) = (heightFormula (seed p) (real x), p1)"
      and v1: "cachesValid p1" and s1: "seed p1 = seed p"
      using "1.prems"(1) by (rule cellHeight_valid)
    from "1.IH"[OF True c[symmetric] refl v1] True s1
    obtain p' where "heightRowLoop p1 z (x + 1) (row @ [heightFormula (seed p) (real x)])
          = ((row @ [heightFormula (seed p) (real x)])
              @ map (\<lambda>k. heightFormula (seed p) (real k)) [x + 1..<WORLD_SIZE], p')"
       and "cachesValid p'" and "seed p' = seed p"
      by auto
    then show ?thesis
      using True c by (subst heightRowLoop.simps) (simp add: upt_conv_Cons)
  qed
qed

lemma heightMapLoop_valid:
  "cachesValid p \<Longrightarrow> z \<le> WORLD_SIZE \<Longrightarrow>
   \<exists>p'. heightMapLoop p z hm
          = (hm @ replicate (WORLD_SIZE - z) (heightRow (seed p)), p')
        \<and> cachesValid p' \<and> seed p' = seed p"
proof (induction p z hm rule: heightMapLoop.induct)
  case (1 p z hm)
  show ?case
  proof (cases "z < WORLD_SIZE")
    case False
    with "1.prems" show ?thesis by (simp add: heightMapLoop.simps)
  next
    case True
    obtain p1 where r: "heightRowLoop p z 0 [] = (heightRow (seed p), p1)"
      and v1: "cachesValid p1" and s1: "seed p1 = seed p"
      using heightRowLoop_valid[OF "1.prems"(1), of 0 z "[]"] by (auto simp: heightRow_def)
    from "1.IH"[OF True r[symmetric] refl v1] True s1
    obtain p' where "heightMapLoop p1 (z + 1) (hm @ [heightRow (seed p)])
          = ((hm @ [heightRow (seed p)])
              @ replicate (WORLD_SIZE - (z + 1)) (heightRow (seed p)), p')"
       and "cachesValid p'" and "seed p' = seed p"
      by auto
    moreover have "replicate (WORLD_SIZE - z) (heightRow (seed p))
        = heightRow (seed p) # replicate (WORLD_SIZE - (z + 1)) (heightRow (seed p))"
      using True by (cases "WORLD_SIZE - z") (simp_all add: Suc_diff_Suc)
    ultimately show ?thesis
      using True r by (subst heightMapLoop.simps) simp
  qed
qed

lemma generateHeightMap_valid:
  assumes "cachesValid p"
  obtains p' where "generateHeightMap p = (replicate WORLD_SIZE (heightRow (seed p)), p')"
    and "cachesValid p'" and "seed p' = seed p"
  using heightMapLoop_valid[OF assms, of 0 "[]"] unfolding generateHeightMap_def by auto

lemma generateHeightMap_nth:
  assumes "cachesValid p" "z < WORLD_SIZE" "x < WORLD_SIZE"
  shows "fst (generateHeightMap p) ! z ! x = heightFormula (seed p) (real x)"
proof -
  obtain p' where "generateHeightMap p = (replicate WORLD_SIZE (heightRow (seed p)), p')"
    using assms(1) by (rule generateHeightMap_valid)
  then show ?thesis
    using assms(2,3) by (simp add: heightRow_def)
qed

lemma octaveNoiseFormula_range: "0 \<le> persistence \<Longrightarrow> \<bar>octaveNoiseFormula s x y octaves persistence\<bar> \<le> 1"
  using octaveNoise_range[of "newPerlinNoise s" persistence x y octaves]
    octaveNoise_valid[of "newPerlinNoise s" x y octaves persistence]
  by (metis cachesValid_new fst_conv newPerlinNoise_def PerlinNoise.select_convs(1))

lemma floor_height_range:
  fixes v :: real
  assumes "\<bar>v\<bar> \<le> 1"
  shows "5 \<le> \<lfloor>(v + 1) * 10\<rfloor> + 5" "\<lfloor>(v + 1) * 10\<rfloor> + 5 \<le> 25"
proof -
  define r where "r = (v + 1) * 10"
  have "0 \<le> r" "r \<le> 20" using assms by (simp_all add: r_def)
  then have "0 \<le> \<lfloor>r\<rfloor>" "\<lfloor>r\<rfloor> \<le> 20" by linarith+
  then show "5 \<le> \<lfloor>(v + 1) * 10\<rfloor> + 5" "\<lfloor>(v + 1) * 10\<rfloor> + 5 \<le> 25"
    by (simp_all add: r_def)
qed

lemma heightFormula_range: "5 \<le> heightFormula s x" "heightFormula s x \<le> 25"
  unfolding heightFormula_def
  by (rule floor_height_range, rule octaveNoiseFormula_range, simp)+

lemma heightFormula_period: "heightFormula s 0 = heightFormula s WORLD_SIZE"
  by (simp add: heightFormula_def)
subsection \<open>The normaliser of the octave sum\<close>

lemma octaveLoop_maxValue_mono:
  "0 \<le> amplitude \<Longrightarrow> 0 \<le> persistence \<Longrightarrow>
   maxValue \<le> snd (fst (octaveLoop p x y octaves persistence i tot frequency amplitude maxValue))"
proof (induction p x y octaves persistence i tot frequency amplitude maxValue
       rule: octaveLoop.induct)
  case (1 p x y octaves persistence i tot frequency amplitude maxValue)
  show ?case
  proof (cases "i < octaves")
    case False
    then show ?thesis by (simp add: octaveLoop.simps)
  next
    case True
    obtain n p' where np: "noise p (x * frequency) (y * frequency) = (n, p')"
      by (cases "noise p (x * frequency) (y * frequency)")
    have "maxValue + amplitude \<le> snd (fst (octaveLoop p' x y octaves persistence (i + 1)
            (tot + n * amplitude) (frequency * 2) (amplitude * persistence)
            (maxValue + amplitude)))"
      using "1.IH"[OF True np[symmetric] refl] "1.prems" by simp
    then show ?thesis
      using True np "1.prems"
      by (subst octaveLoop.simps) simp
  qed
qed

text \<open>
  C10.  With at least one octave and a persistence in \<open>(0, 1]\<close> the normaliser
  \<open>maxValue\<close> that \<open>octaveNoise\<close> divides by is at least \<open>1\<close>, so the division
  \<open>total / maxValue\<close> is by a non-zero number and gives back the accumulated total
  when multiplied by it.
\<close>

theorem octaveNoise_divisor_ge_one:
  assumes "1 \<le> octaves" and "0 < persistence" and "persistence \<le> 1"
  shows "1 \<le> snd (fst (octaveLoop p x y octaves persistence 0 0 1 1 0))
       \<and> fst (octaveNoise p x y octaves persistence)
            * snd (fst (octaveLoop p x y octaves persistence 0 0 1 1 0))
          = fst (fst (octaveLoop p x y octaves persistence 0 0 1 1 0))"
proof -
  obtain n p' where np: "noise p (x * 1) (y * 1) = (n, p')"
    by (cases "noise p (x * 1) (y * 1)")
  let ?r = "octaveLoop p' x y octaves persistence (0 + 1) (0 + n * 1) (1 * 2)
              (1 * persistence) (0 + 1)"
  have step: "octaveLoop p x y octaves persistence 0 0 1 1 0 = ?r"
    using assms(1) np by (subst octaveLoop.simps) simp
  have "0 + 1 \<le> snd (fst ?r)"
    by (rule octaveLoop_maxValue_mono) (use assms in simp_all)
  then have ge: "1 \<le> snd (fst (octaveLoop p x y octaves persistence 0 0 1 1 0))"
    using step by simp
  then have "snd (fst (octaveLoop p x y octaves persistence 0 0 1 1 0)) \<noteq> 0"
    by simp
  then have "fst (octaveNoise p x y octaves persistence)
            * snd (fst (octaveLoop p x y octaves persistence 0 0 1 1 0))
          = fst (fst (octaveLoop p x y octaves persistence 0 0 1 1 0))"
    by (simp add: octaveNoise_def split_beta)
  with ge show ?thesis by simp
qed

text \<open>An instance of C10: four octaves, persistence a half.\<close>

theorem octaveNoise_divisor_ge_one_witness:
  "(1::int) \<le> 4 \<and> (0::real) < 1 / 2 \<and> (1::real) / 2 \<le> 1
   \<and> 1 \<le> snd (fst (octaveLoop (newPerlinNoise 42) 10 10 4 (1 / 2) 0 0 1 1 0))
   \<and> fst (octaveNoise (newPerlinNoise 42) 10 10 4 (1 / 2))
        * snd (fst (octaveLoop (newPerlinNoise 42) 10 10 4 (1 / 2) 0 0 1 1 0))
      = fst (fst (octaveLoop (newPerlinNoise 42) 10 10 4 (1 / 2) 0 0 1 1 0))"
  using octaveNoise_divisor_ge_one[of 4 "1 / 2" "newPerlinNoise 42" 10 10] by simp


subsection \<open>Determinism, the seam and the range\<close>

lemma noise_memo: "memory (snd (noise p x y)) (x, y) = Some (fst (noise p x y))"
  by (cases "memory p (x, y)") (simp_all add: noise_def Let_def split_beta)

lemma noise_reachable:
  assumes "reachable s p"
  shows "fst (noise p x y) = noiseFormula s x y"
  using reachable_valid[OF assms] noise_valid[of p x y] by (metis fst_conv)

lemma octaveNoise_reachable:
  assumes "reachable s p"
  shows "fst (octaveNoise p x y octaves persistence) = octaveNoiseFormula s x y octaves persistence"
  using reachable_valid[OF assms] octaveNoise_valid[of p x y octaves persistence]
  by (metis fst_conv)

lemma cellHeight_reachable:
  assumes "reachable s p"
  shows "fst (cellHeight p x z) = heightFormula s x"
  using reachable_valid[OF assms] cellHeight_valid[of p x z] by (metis fst_conv)

lemma generateHeightMap_reachable:
  assumes "reachable s p"
  shows "fst (generateHeightMap p) = replicate WORLD_SIZE (heightRow s)"
  using reachable_valid[OF assms] generateHeightMap_valid[of p] by (metis fst_conv)

text \<open>
  C9.  For a fixed seed \<open>s\<close> the noise functions are deterministic.  Whatever calls
  have been made on two \<open>PerlinNoise\<close> objects constructed with \<open>s\<close>, \<open>noise\<close>
  returns the same value on both for the same \<open>(x, y)\<close>, and so does \<open>octaveNoise\<close> for
  the same arguments.  That value is the one a freshly constructed object computes, and a
  value found in the memo cache under \<open>(x, y)\<close> is that value too.
\<close>

theorem noise_deterministic:
  assumes "reachable s p" and "reachable s q"
  shows "fst (noise p x y) = fst (noise q x y)
       \<and> fst (octaveNoise p x y octaves persistence) = fst (octaveNoise q x y octaves persistence)
       \<and> fst (noise p x y) = fst (noise (newPerlinNoise s) x y)
       \<and> (\<forall>v. memory p (x, y) = Some v \<longrightarrow> v = fst (noise (newPerlinNoise s) x y))"
proof -
  have new: "reachable s (newPerlinNoise s)" by (rule reachable.constructed)
  have "\<forall>v. memory p (x, y) = Some v \<longrightarrow> v = noiseFormula s x y"
    using reachable_valid[OF assms(1)] unfolding cachesValid_def by blast
  then show ?thesis
    by (simp add: noise_reachable[OF assms(1)] noise_reachable[OF assms(2)] noise_reachable[OF new]
        octaveNoise_reachable[OF assms(1)] octaveNoise_reachable[OF assms(2)])
qed

text \<open>
  An instance of C9: the object that has already answered \<open>noise(10, 10)\<close>, and so
  answers from its cache, against a fresh one, both with seed \<open>42\<close>.
\<close>

theorem noise_deterministic_witness:
  "reachable 42 (snd (noise (newPerlinNoise 42) 10 10)) \<and> reachable 42 (newPerlinNoise 42)
   \<and> fst (noise (snd (noise (newPerlinNoise 42) 10 10)) 10 10) = fst (noise (newPerlinNoise 42) 10 10)
   \<and> fst (octaveNoise (snd (noise (newPerlinNoise 42) 10 10)) 10 10 4 (1 / 2))
       = fst (octaveNoise (newPerlinNoise 42) 10 10 4 (1 / 2))
   \<and> memory (snd (noise (newPerlinNoise 42) 10 10)) (10, 10)
       = Some (fst (noise (newPerlinNoise 42) 10 10))"
proof -
  have q: "reachable 42 (newPerlinNoise 42)" by (rule reachable.constructed)
  have p: "reachable 42 (snd (noise (newPerlinNoise 42) 10 10))"
    using q by (rule reachable.after_noise)
  show ?thesis
    using noise_deterministic[OF p q, of 10 10 4 "1 / 2"] p q noise_memo[of "newPerlinNoise 42" 10 10]
    by simp
qed

text \<open>
  C1.  Seam continuity.  For every row \<open>z\<close> of the world the cell that the build stores
  at column \<open>0\<close> has the height that the same computation gives at the pre-wrap column
  \<open>x = 256\<close>, and for every column \<open>x\<close> the cell stored at row \<open>0\<close> has the height
  computed at the pre-wrap row \<open>z = 256\<close>; \<open>cellHeight\<close> itself agrees at \<open>0\<close> and \<open>256\<close> in
  either coordinate.  The state of the caches plays no role.
\<close>

theorem heightmap_seam:
  assumes "reachable s p" and "reachable s q" and "z < WORLD_SIZE" and "x < WORLD_SIZE"
  shows "fst (generateHeightMap p) ! z ! 0 = fst (cellHeight q WORLD_SIZE (real z))
       \<and> fst (cellHeight q 0 (real z)) = fst (cellHeight q WORLD_SIZE (real z))
       \<and> fst (generateHeightMap p) ! 0 ! x = fst (cellHeight q (real x) WORLD_SIZE)
       \<and> fst (cellHeight q (real x) 0) = fst (cellHeight q (real x) WORLD_SIZE)"
proof -
  have v: "cachesValid p" "seed p = s"
    using reachable_valid[OF assms(1)] by simp_all
  have "fst (generateHeightMap p) ! z ! 0 = heightFormula s 0"
    using generateHeightMap_nth[OF v(1) assms(3), of 0] v(2) by simp
  moreover have "fst (generateHeightMap p) ! 0 ! x = heightFormula s (real x)"
    using generateHeightMap_nth[OF v(1) _ assms(4), of 0] v(2) by simp
  ultimately show ?thesis
    by (simp add: cellHeight_reachable[OF assms(2)] heightFormula_period)
qed

text \<open>An instance of C1: row \<open>3\<close> and column \<open>7\<close> of the world of seed \<open>42\<close>.\<close>

theorem heightmap_seam_witness:
  "reachable 42 (newPerlinNoise 42) \<and> (3::nat) < WORLD_SIZE \<and> (7::nat) < WORLD_SIZE
   \<and> fst (generateHeightMap (newPerlinNoise 42)) ! 3 ! 0
       = fst (cellHeight (newPerlinNoise 42) WORLD_SIZE (real 3))
   \<and> fst (cellHeight (newPerlinNoise 42) 0 (real 3))
       = fst (cellHeight (newPerlinNoise 42) WORLD_SIZE (real 3))
   \<and> fst (generateHeightMap (newPerlinNoise 42)) ! 0 ! 7
       = fst (cellHeight (newPerlinNoise 42) (real 7) WORLD_SIZE)
   \<and> fst (cellHeight (newPerlinNoise 42) (real 7) 0)
       = fst (cellHeight (newPerlinNoise 42) (real 7) WORLD_SIZE)"
proof -
  have q: "reachable 42 (newPerlinNoise 42)" by (rule reachable.constructed)
  show ?thesis
    using heightmap_seam[OF q q, of 3 7] q by simp
qed

text \<open>
  C2.  The built height map is constant along \<open>z\<close>: two cells of the same column \<open>x\<close>
  hold the same height, whatever their rows \<open>z1\<close> and \<open>z2\<close>, since only the components
  \<open>nx\<close>, \<open>ny\<close> derived from \<open>x\<close> reach the noise.
\<close>

theorem heightmap_constant_along_z:
  assumes "reachable s p" and "x < WORLD_SIZE" and "z1 < WORLD_SIZE" and "z2 < WORLD_SIZE"
  shows "fst (generateHeightMap p) ! z1 ! x = fst (generateHeightMap p) ! z2 ! x"
proof -
  have v: "cachesValid p"
    using reachable_valid[OF assms(1)] by simp
  show ?thesis
    by (simp add: generateHeightMap_nth[OF v assms(3) assms(2)]
        generateHeightMap_nth[OF v assms(4) assms(2)])
qed

text \<open>An instance of C2: column \<open>5\<close> in the first and in the last row, seed \<open>42\<close>.\<close>

theorem heightmap_constant_along_z_witness:
  "reachable 42 (newPerlinNoise 42) \<and> (5::nat) < WORLD_SIZE \<and> (0::nat) < WORLD_SIZE
   \<and> (255::nat) < WORLD_SIZE
   \<and> fst (generateHeightMap (newPerlinNoise 42)) ! 0 ! 5
       = fst (generateHeightMap (newPerlinNoise 42)) ! 255 ! 5"
proof -
  have q: "reachable 42 (newPerlinNoise 42)" by (rule reachable.constructed)
  show ?thesis
    using heightmap_constant_along_z[OF q, of 5 0 255] q by simp
qed

section \<open>Wrapping and the ground clamp\<close>

text \<open>
  On integers \<open>wrap\<close> is the remainder of the floored division by \<open>WORLD_SIZE\<close>; on
  reals \<open>wrapReal\<close> lands in \<open>[0, WORLD_SIZE)\<close>, so the floored coordinates of the player
  index the height map.
\<close>

lemma jsRem_nonneg: "0 \<le> a \<Longrightarrow> jsRem a WORLD_SIZE = a mod WORLD_SIZE"
  by (simp add: jsRem_def sgn_if)

lemma jsRem_neg: "a < 0 \<Longrightarrow> jsRem a WORLD_SIZE = - ((- a) mod WORLD_SIZE)"
  by (simp add: jsRem_def sgn_if)

lemma wrap_mod: "wrap n = n mod WORLD_SIZE"
proof (cases "0 \<le> n")
  case True
  then have "jsRem n WORLD_SIZE = n mod WORLD_SIZE" by (rule jsRem_nonneg)
  moreover have "0 \<le> n mod WORLD_SIZE + WORLD_SIZE" by simp
  ultimately show ?thesis
    by (simp add: wrap_def jsRem_nonneg)
next
  case False
  then have r: "jsRem n WORLD_SIZE = - ((- n) mod WORLD_SIZE)" by (simp add: jsRem_neg)
  have "(- n) mod WORLD_SIZE < WORLD_SIZE" by simp
  then have "0 \<le> - ((- n) mod WORLD_SIZE) + WORLD_SIZE" by simp
  then have "wrap n = (- ((- n) mod WORLD_SIZE) + WORLD_SIZE) mod WORLD_SIZE"
    by (simp add: wrap_def r jsRem_nonneg)
  also have "\<dots> = n mod WORLD_SIZE"
    by (simp add: mod_minus_eq)
  finally show ?thesis .
qed

lemma wrap_range: "0 \<le> wrap n" "wrap n < WORLD_SIZE"
  by (simp_all add: wrap_mod)

lemma wrap_chunk: "wrap (c * CHUNK_SIZE + k) = wrap ((c mod CHUNK_SIZE) * CHUNK_SIZE + k)"
proof -
  define q r where "q = c div 16" and "r = c mod 16"
  have "c = q * 16 + r" by (simp add: q_def r_def)
  then have e: "c * 16 + k = (c mod 16) * 16 + k + 256 * (c div 16)"
    unfolding q_def[symmetric] r_def[symmetric] by simp
  have "(c * 16 + k) mod 256 = ((c mod 16) * 16 + k + 256 * (c div 16)) mod 256"
    by (subst e) (rule refl)
  also have "\<dots> = ((c mod 16) * 16 + k) mod 256"
    by (rule mod_mult_self2)
  finally show ?thesis by (simp add: wrap_mod)
qed

lemma heightAt_wf:
  assumes "wfHeightMap hm" "0 \<le> z" "z < WORLD_SIZE" "0 \<le> x" "x < WORLD_SIZE"
  shows "heightAt hm z x = Some (hm ! nat z ! nat x)"
proof -
  have "nat z < length hm" using assms by (simp add: wfHeightMap_def)
  moreover from this have "hm ! nat z \<in> set hm" by simp
  then have "length (hm ! nat z) = WORLD_SIZE" using assms(1) by (simp add: wfHeightMap_def)
  ultimately show ?thesis using assms by (simp add: heightAt_def)
qed

lemma columnHeight_wf:
  assumes "wfHeightMap hm"
  shows "columnHeight hm chunkX chunkZ x z
         = Some (hm ! nat (wrap (chunkZ * CHUNK_SIZE + int z)) ! nat (wrap (chunkX * CHUNK_SIZE + int x)))"
  unfolding columnHeight_def Let_def
  by (rule heightAt_wf[OF assms]) (rule wrap_range)+

text \<open>
  C7.  Wrap correctness.  \<open>wrap\<close> maps every integer, negative or not, into
  \<open>[0, WORLD_SIZE)\<close>, and every column of a chunk reads the height that the same column
  of the in-bounds chunk with congruent coordinates (modulo \<open>WORLD_SIZE / CHUNK_SIZE = 16\<close>)
  reads.
\<close>

theorem wrap_correct:
  "0 \<le> wrap n \<and> wrap n < WORLD_SIZE
   \<and> columnHeight hm chunkX chunkZ x z
       = columnHeight hm (chunkX mod CHUNK_SIZE) (chunkZ mod CHUNK_SIZE) x z
   \<and> 0 \<le> chunkX mod CHUNK_SIZE \<and> chunkX mod CHUNK_SIZE < CHUNK_SIZE
   \<and> 0 \<le> chunkZ mod CHUNK_SIZE \<and> chunkZ mod CHUNK_SIZE < CHUNK_SIZE"
proof -
  have "columnHeight hm chunkX chunkZ x z
       = columnHeight hm (chunkX mod CHUNK_SIZE) (chunkZ mod CHUNK_SIZE) x z"
    unfolding columnHeight_def Let_def
    by (simp only: wrap_chunk[of chunkX "int x"] wrap_chunk[of chunkZ "int z"])
  then show ?thesis by (simp add: wrap_range)
qed

lemma jsRemReal_range_nonneg:
  assumes "0 \<le> a"
  shows "0 \<le> jsRemReal a WORLD_SIZE" "jsRemReal a WORLD_SIZE < WORLD_SIZE"
proof -
  define q where "q = \<lfloor>a / 256\<rfloor>"
  have "of_int q \<le> a / 256" "a / 256 < of_int q + 1"
    unfolding q_def by linarith+
  moreover have "jsRemReal a 256 = a - 256 * of_int q"
    using assms by (simp add: jsRemReal_def q_def)
  ultimately show "0 \<le> jsRemReal a WORLD_SIZE" "jsRemReal a WORLD_SIZE < WORLD_SIZE"
    by simp_all
qed

lemma jsRemReal_lower: "- WORLD_SIZE < jsRemReal a WORLD_SIZE"
proof (cases "0 \<le> a")
  case True
  then show ?thesis using jsRemReal_range_nonneg(1)[of a] by simp
next
  case False
  define q where "q = \<lceil>a / 256\<rceil>"
  have "a / 256 \<le> of_int q" "of_int q < a / 256 + 1"
    unfolding q_def by linarith+
  moreover have "jsRemReal a 256 = a - 256 * of_int q"
    using False by (simp add: jsRemReal_def q_def)
  ultimately show ?thesis by simp
qed

lemma wrapReal_range: "0 \<le> wrapReal v" "wrapReal v < WORLD_SIZE"
proof -
  have "0 \<le> jsRemReal v 256 + 256"
    using jsRemReal_lower[of v] by simp
  then show "0 \<le> wrapReal v" "wrapReal v < WORLD_SIZE"
    unfolding wrapReal_def by (rule jsRemReal_range_nonneg)+
qed

lemma floor_wrapReal: "0 \<le> \<lfloor>wrapReal v\<rfloor>" "\<lfloor>wrapReal v\<rfloor> < WORLD_SIZE"
  using wrapReal_range[of v] by (simp_all add: floor_less_iff)

lemma index_wrapReal:
  "jsRem \<lfloor>wrapReal v\<rfloor> WORLD_SIZE = \<lfloor>wrapReal v\<rfloor>" "wrap \<lfloor>wrapReal v\<rfloor> = \<lfloor>wrapReal v\<rfloor>"
  using floor_wrapReal[of v] by (simp_all add: jsRem_nonneg wrap_mod)

text \<open>
  C5.  Ground clamp.  On a height map of \<open>WORLD_SIZE\<close> rows of \<open>WORLD_SIZE\<close> cells
  \<open>updatePlayer\<close> always returns, and in the world it returns the player's \<open>y\<close> is the
  height stored at the wrapped, floored \<open>(z, x)\<close> of the resulting position plus
  \<open>PLAYER_HEIGHT / 2\<close>, while the resulting \<open>x\<close> and \<open>z\<close> lie in \<open>[0, WORLD_SIZE)\<close>.
\<close>

theorem ground_clamp:
  assumes "wfHeightMap (heightMap w)"
  shows "\<exists>w' terrainHeight.
           updatePlayer w pointerLocked deltaTime = Some w'
         \<and> heightAt (heightMap w') (wrap \<lfloor>vz (position (player w'))\<rfloor>)
              (wrap \<lfloor>vx (position (player w'))\<rfloor>) = Some terrainHeight
         \<and> vy (position (player w')) = real_of_int terrainHeight + PLAYER_HEIGHT / 2
         \<and> 0 \<le> vx (position (player w')) \<and> vx (position (player w')) < WORLD_SIZE
         \<and> 0 \<le> vz (position (player w')) \<and> vz (position (player w')) < WORLD_SIZE"
proof -
  define pl1 where "pl1 = (if pointerLocked
      then (player w)\<lparr>rotation := rotation (player w) - mouseX (mouse w) * sensitivity (mouse w)\<rparr>
      else player w)"
  define pl2 where "pl2 = movePlayer pl1 (moveIntent (keys w)) deltaTime"
  define x where "x = wrapReal (vx (position pl2))"
  define z where "z = wrapReal (vz (position pl2))"
  define h where "h = heightMap w ! nat \<lfloor>z\<rfloor> ! nat \<lfloor>x\<rfloor>"
  have look: "heightAt (heightMap w) \<lfloor>z\<rfloor> \<lfloor>x\<rfloor> = Some h"
    unfolding h_def x_def z_def by (rule heightAt_wf[OF assms]) (rule floor_wrapReal)+
  obtain w' where w': "updatePlayer w pointerLocked deltaTime = Some w'"
    and hm: "heightMap w' = heightMap w"
    and pos: "position (player w') = \<lparr>vx = x, vy = real_of_int h + PLAYER_HEIGHT / 2, vz = z\<rparr>"
    using look
    by (simp add: updatePlayer_def Let_def pl1_def pl2_def x_def z_def index_wrapReal)
  have "heightAt (heightMap w') (wrap \<lfloor>vz (position (player w'))\<rfloor>)
              (wrap \<lfloor>vx (position (player w'))\<rfloor>) = Some h"
    using look by (simp add: hm pos x_def z_def index_wrapReal)
  moreover have "0 \<le> x" "x < WORLD_SIZE" "0 \<le> z" "z < WORLD_SIZE"
    unfolding x_def z_def by (rule wrapReal_range)+
  ultimately show ?thesis
    using w' pos by simp
qed

lemma wf_generateHeightMap:
  assumes "reachable s p"
  shows "wfHeightMap (fst (generateHeightMap p))"
  by (simp add: generateHeightMap_reachable[OF assms] wfHeightMap_def heightRow_def)

lemma heightMap_constructWorld:
  "heightMap (constructWorld now) = fst (generateHeightMap (newPerlinNoise now))"
  by (simp add: constructWorld_def split_beta)

lemma wf_constructWorld: "wfHeightMap (heightMap (constructWorld now))"
  unfolding heightMap_constructWorld
  by (rule wf_generateHeightMap) (rule reachable.constructed)

text \<open>
  An instance of C5: one tick of a sixtieth of a second, the pointer locked, in the world
  constructed with seed \<open>42\<close>.
\<close>

theorem ground_clamp_witness:
  "wfHeightMap (heightMap (constructWorld 42))
   \<and> (\<exists>w' terrainHeight.
           updatePlayer (constructWorld 42) True (1 / 60) = Some w'
         \<and> heightAt (heightMap w') (wrap \<lfloor>vz (position (player w'))\<rfloor>)
              (wrap \<lfloor>vx (position (player w'))\<rfloor>) = Some terrainHeight
         \<and> vy (position (player w')) = real_of_int terrainHeight + PLAYER_HEIGHT / 2
         \<and> 0 \<le> vx (position (player w')) \<and> vx (position (player w')) < WORLD_SIZE
         \<and> 0 \<le> vz (position (player w')) \<and> vz (position (player w')) < WORLD_SIZE)"
  using ground_clamp[OF wf_constructWorld, of 42 True "1 / 60"] wf_constructWorld[of 42]
  by simp


section \<open>Movement\<close>

text \<open>
  A non-zero intent vector is normalised to length \<open>1\<close>, the rotation by the heading
  keeps the length, and the step is that unit vector times \<open>MOVE_SPEED * deltaTime\<close>.
\<close>

lemma moveIntent_components:
  "vx (moveIntent ks) = (if keyHeld ks ''d'' then 1 else 0) - (if keyHeld ks ''a'' then 1 else 0)"
  "vy (moveIntent ks) = 0"
  "vz (moveIntent ks) = (if keyHeld ks ''s'' then 1 else 0) - (if keyHeld ks ''w'' then 1 else 0)"
  by (simp_all add: moveIntent_def Let_def)

lemma normalize_unit:
  assumes "0 < vlength m" "vy m = 0"
  shows "vx (vnormalize m) * vx (vnormalize m) + vz (vnormalize m) * vz (vnormalize m) = 1"
proof -
  define l where "l = vlength m"
  have l: "0 < l" using assms(1) by (simp add: l_def)
  have "0 \<le> vx m * vx m + vz m * vz m" by simp
  then have "l * l = vx m * vx m + vz m * vz m"
    unfolding l_def vlength_def using assms(2) by simp
  moreover have n: "vx (vnormalize m) = vx m / l" "vz (vnormalize m) = vz m / l"
    using l by (simp_all add: vnormalize_def l_def Let_def)
  moreover have "vx m / l * (vx m / l) + vz m / l * (vz m / l)
        = (vx m * vx m + vz m * vz m) / (l * l)"
    by (simp add: add_divide_distrib)
  ultimately have "vx (vnormalize m) * vx (vnormalize m) + vz (vnormalize m) * vz (vnormalize m)
        = (l * l) / (l * l)"
    by simp
  then show ?thesis using l by simp
qed

lemma rotate_preserves:
  fixes a b r :: real
  shows "(a * cos r - b * sin r) * (a * cos r - b * sin r)
       + (a * sin r + b * cos r) * (a * sin r + b * cos r) = a * a + b * b"
proof -
  define s c where "s = sin r" and "c = cos r"
  have sc: "s * s + c * c = 1"
    using sin_cos_squared_add[of r] by (simp add: s_def c_def power2_eq_square)
  have "(a * c - b * s) * (a * c - b * s) + (a * s + b * c) * (a * s + b * c)
      = (a * a + b * b) * (s * s + c * c)"
    by (simp add: algebra_simps)
  then show ?thesis
    unfolding sc by (simp add: s_def c_def)
qed

lemma movePlayer_displacement:
  assumes "0 < vlength m" "vy m = 0" "0 \<le> deltaTime"
  shows "sqrt ((vx (position (movePlayer pl m deltaTime)) - vx (position pl))\<^sup>2
             + (vz (position (movePlayer pl m deltaTime)) - vz (position pl))\<^sup>2)
         = MOVE_SPEED * deltaTime"
proof -
  define n where "n = vnormalize m"
  define rx where "rx = vx n * cos (rotation pl) - vz n * sin (rotation pl)"
  define rz where "rz = vx n * sin (rotation pl) + vz n * cos (rotation pl)"
  have u: "rx * rx + rz * rz = 1"
    unfolding rx_def rz_def rotate_preserves n_def using assms(1,2) by (rule normalize_unit)
  have dx: "vx (position (movePlayer pl m deltaTime)) - vx (position pl) = rx * MOVE_SPEED * deltaTime"
    and dz: "vz (position (movePlayer pl m deltaTime)) - vz (position pl) = rz * MOVE_SPEED * deltaTime"
    using assms(1) by (simp_all add: movePlayer_def Let_def rx_def rz_def n_def)
  define d where "d = MOVE_SPEED * deltaTime"
  have d: "0 \<le> d" using assms(3) by (simp add: d_def)
  have "(rx * d)\<^sup>2 + (rz * d)\<^sup>2 = (rx * rx + rz * rz) * d\<^sup>2"
    by (simp add: power2_eq_square algebra_simps)
  then have "sqrt ((rx * d)\<^sup>2 + (rz * d)\<^sup>2) = sqrt (d\<^sup>2)"
    by (simp add: u)
  also have "\<dots> = d"
    using d by simp
  finally show ?thesis
    unfolding dx dz by (simp add: d_def mult.assoc)
qed

lemma moveIntent_length:
  assumes "keyHeld ks ''w'' \<noteq> keyHeld ks ''s'' \<or> keyHeld ks ''a'' \<noteq> keyHeld ks ''d''"
  shows "0 < vlength (moveIntent ks)"
  using assms by (auto simp: vlength_def moveIntent_components)

lemma held_key_speed:
  assumes "keyHeld ks ''w'' \<noteq> keyHeld ks ''s'' \<or> keyHeld ks ''a'' \<noteq> keyHeld ks ''d''"
    and "0 \<le> deltaTime"
  shows "sqrt ((vx (position (movePlayer pl (moveIntent ks) deltaTime)) - vx (position pl))\<^sup>2
             + (vz (position (movePlayer pl (moveIntent ks) deltaTime)) - vz (position pl))\<^sup>2)
         = MOVE_SPEED * deltaTime"
  by (rule movePlayer_displacement)
     (use assms in \<open>simp_all add: moveIntent_length moveIntent_components\<close>)

text \<open>
  C8.  Movement normalisation.  When one of forward/back and one of left/right are held
  (two perpendicular keys), the intent vector has length \<open>sqrt 2\<close> before it is
  normalised, and the displacement added to the position in the tick has length
  \<open>MOVE_SPEED * deltaTime\<close>, the length it has when the forward key alone is held.
\<close>

theorem diagonal_speed:
  assumes "keyHeld ks ''w'' \<noteq> keyHeld ks ''s''" and "keyHeld ks ''a'' \<noteq> keyHeld ks ''d''"
    and "0 \<le> deltaTime"
  shows "vlength (moveIntent ks) = sqrt 2
       \<and> sqrt ((vx (position (movePlayer pl (moveIntent ks) deltaTime)) - vx (position pl))\<^sup>2
             + (vz (position (movePlayer pl (moveIntent ks) deltaTime)) - vz (position pl))\<^sup>2)
         = MOVE_SPEED * deltaTime
       \<and> sqrt ((vx (position (movePlayer pl (moveIntent [''w'' \<mapsto> True]) deltaTime))
                 - vx (position pl))\<^sup>2
             + (vz (position (movePlayer pl (moveIntent [''w'' \<mapsto> True]) deltaTime))
                 - vz (position pl))\<^sup>2)
         = MOVE_SPEED * deltaTime"
proof -
  have "vlength (moveIntent ks) = sqrt 2"
    using assms(1,2) by (auto simp: vlength_def moveIntent_components)
  moreover have "sqrt ((vx (position (movePlayer pl (moveIntent ks) deltaTime)) - vx (position pl))\<^sup>2
             + (vz (position (movePlayer pl (moveIntent ks) deltaTime)) - vz (position pl))\<^sup>2)
         = MOVE_SPEED * deltaTime"
    by (rule held_key_speed) (use assms in simp_all)
  moreover have "sqrt ((vx (position (movePlayer pl (moveIntent [''w'' \<mapsto> True]) deltaTime))
                 - vx (position pl))\<^sup>2
             + (vz (position (movePlayer pl (moveIntent [''w'' \<mapsto> True]) deltaTime))
                 - vz (position pl))\<^sup>2)
         = MOVE_SPEED * deltaTime"
    by (rule held_key_speed) (use assms(3) in \<open>simp_all add: keyHeld_def\<close>)
  ultimately show ?thesis by simp
qed

text \<open>An instance of C8: forward and right held for a sixtieth of a second.\<close>

theorem diagonal_speed_witness:
  "keyHeld [''w'' \<mapsto> True, ''d'' \<mapsto> True] ''w'' \<noteq> keyHeld [''w'' \<mapsto> True, ''d'' \<mapsto> True] ''s''
   \<and> keyHeld [''w'' \<mapsto> True, ''d'' \<mapsto> True] ''a'' \<noteq> keyHeld [''w'' \<mapsto> True, ''d'' \<mapsto> True] ''d''
   \<and> (0::real) \<le> 1 / 60
   \<and> vlength (moveIntent [''w'' \<mapsto> True, ''d'' \<mapsto> True]) = sqrt 2
   \<and> sqrt ((vx (position (movePlayer (player (constructWorld 42))
                  (moveIntent [''w'' \<mapsto> True, ''d'' \<mapsto> True]) (1 / 60)))
             - vx (position (player (constructWorld 42))))\<^sup>2
           + (vz (position (movePlayer (player (constructWorld 42))
                  (moveIntent [''w'' \<mapsto> True, ''d'' \<mapsto> True]) (1 / 60)))
             - vz (position (player (constructWorld 42))))\<^sup>2)
       = MOVE_SPEED * (1 / 60)"
proof -
  have k: "keyHeld [''w'' \<mapsto> True, ''d'' \<mapsto> True] ''w'' \<noteq> keyHeld [''w'' \<mapsto> True, ''d'' \<mapsto> True] ''s''"
    "keyHeld [''w'' \<mapsto> True, ''d'' \<mapsto> True] ''a'' \<noteq> keyHeld [''w'' \<mapsto> True, ''d'' \<mapsto> True] ''d''"
    by (simp_all add: keyHeld_def)
  have d: "(0::real) \<le> 1 / 60" by simp
  show ?thesis
    using diagonal_speed[OF k d, of "player (constructWorld 42)"] k by simp
qed

section \<open>Chunk loading\<close>

text \<open>
  One pass of \<open>updateChunks\<close> leaves every key of its window settled and keeps settled
  keys settled; a pass over a window of settled keys changes nothing.
\<close>

lemma generateChunk_post:
  assumes "generateChunk setHex w cx cz = Some w'"
  shows "heightMap w' = heightMap w" "player w' = player w" "settled setHex w' (cx, cz)"
    "\<And>k. settled setHex w k \<Longrightarrow> settled setHex w' k"
    "\<And>k. chunks w k \<noteq> None \<Longrightarrow> chunks w' k \<noteq> None"
  using assms
  by (auto simp: generateChunk_def settled_def split: option.splits if_splits)

lemma generateChunk_settled:
  assumes "settled setHex w (cx, cz)" "chunks w (cx, cz) = None"
  shows "generateChunk setHex w cx cz = Some w"
  using assms by (auto simp: generateChunk_def settled_def)

lemma updateChunksX_noop:
  "(\<And>c. cx \<le> c \<Longrightarrow> c \<le> playerChunkX + RENDER_DISTANCE \<Longrightarrow> settled setHex w (c, cz))
   \<Longrightarrow> updateChunksX setHex w playerChunkX cz cx = Some w"
proof (induction setHex w playerChunkX cz cx rule: updateChunksX.induct)
  case (1 setHex w playerChunkX cz cx)
  show ?case
  proof (cases "cx \<le> playerChunkX + RENDER_DISTANCE")
    case False
    then show ?thesis by (simp add: updateChunksX.simps)
  next
    case True
    show ?thesis
    proof (cases "chunks w (cx, cz) \<noteq> None")
      case present: True
      have "updateChunksX setHex w playerChunkX cz (cx + 1) = Some w"
        using True present by (intro "1.IH"(1)) (simp_all add: "1.prems")
      then show ?thesis
        using True present by (subst updateChunksX.simps) simp
    next
      case absent: False
      have g: "generateChunk setHex w cx cz = Some w"
        using True absent by (intro generateChunk_settled "1.prems") simp_all
      have "updateChunksX setHex w playerChunkX cz (cx + 1) = Some w"
        using True absent g by (intro "1.IH"(2)) (simp_all add: "1.prems")
      then show ?thesis
        using True absent g by (subst updateChunksX.simps) simp
    qed
  qed
qed

lemma updateChunksX_post:
  "updateChunksX setHex w playerChunkX cz cx = Some w' \<Longrightarrow>
   heightMap w' = heightMap w \<and> player w' = player w
   \<and> (\<forall>k. settled setHex w k \<longrightarrow> settled setHex w' k)
   \<and> (\<forall>c. cx \<le> c \<and> c \<le> playerChunkX + RENDER_DISTANCE \<longrightarrow> settled setHex w' (c, cz))"
proof (induction setHex w playerChunkX cz cx rule: updateChunksX.induct)
  case (1 setHex w playerChunkX cz cx)
  show ?case
  proof (cases "cx \<le> playerChunkX + RENDER_DISTANCE")
    case False
    then show ?thesis using "1.prems" by (auto simp: updateChunksX.simps)
  next
    case True
    show ?thesis
    proof (cases "chunks w (cx, cz) \<noteq> None")
      case present: True
      have r: "updateChunksX setHex w playerChunkX cz (cx + 1) = Some w'"
        using "1.prems" True present by (subst (asm) updateChunksX.simps) simp
      note ih = "1.IH"(1)[OF True present r]
      have here: "settled setHex w (cx, cz)"
        using present by (simp add: settled_def)
      have "settled setHex w' (c, cz)" if "cx \<le> c" "c \<le> playerChunkX + RENDER_DISTANCE" for c
      proof (cases "c = cx")
        case True
        then show ?thesis using ih here by blast
      next
        case False
        then have "cx + 1 \<le> c" using that by simp
        then show ?thesis using ih that by blast
      qed
      then show ?thesis using ih by blast
    next
      case absent: False
      obtain w1 where g: "generateChunk setHex w cx cz = Some w1"
        and r: "updateChunksX setHex w1 playerChunkX cz (cx + 1) = Some w'"
        using "1.prems" True absent
        by (subst (asm) updateChunksX.simps) (simp split: option.splits)
      note ih = "1.IH"(2)[OF True absent g r]
      note gp = generateChunk_post[OF g]
      have "settled setHex w' (c, cz)" if "cx \<le> c" "c \<le> playerChunkX + RENDER_DISTANCE" for c
      proof (cases "c = cx")
        case True
        then show ?thesis using ih gp(3) by blast
      next
        case False
        then have "cx + 1 \<le> c" using that by simp
        then show ?thesis using ih that by blast
      qed
      moreover have "\<forall>k. settled setHex w k \<longrightarrow> settled setHex w' k"
        using ih gp(4) by blast
      ultimately show ?thesis using ih gp(1,2) by simp
    qed
  qed
qed

lemma updateChunksZ_noop:
  "(\<And>c d. playerChunkX - RENDER_DISTANCE \<le> c \<Longrightarrow> c \<le> playerChunkX + RENDER_DISTANCE \<Longrightarrow>
      cz \<le> d \<Longrightarrow> d \<le> playerChunkZ + RENDER_DISTANCE \<Longrightarrow> settled setHex w (c, d))
   \<Longrightarrow> updateChunksZ setHex w playerChunkX playerChunkZ cz = Some w"
proof (induction setHex w playerChunkX playerChunkZ cz rule: updateChunksZ.induct)
  case (1 setHex w playerChunkX playerChunkZ cz)
  show ?case
  proof (cases "cz \<le> playerChunkZ + RENDER_DISTANCE")
    case False
    then show ?thesis by (simp add: updateChunksZ.simps)
  next
    case True
    have x: "updateChunksX setHex w playerChunkX cz (playerChunkX - RENDER_DISTANCE) = Some w"
      using True by (intro updateChunksX_noop "1.prems") simp_all
    have "updateChunksZ setHex w playerChunkX playerChunkZ (cz + 1) = Some w"
      using True x by (intro "1.IH") (simp_all add: "1.prems")
    then show ?thesis
      using True x by (subst updateChunksZ.simps) simp
  qed
qed

lemma updateChunksZ_post:
  "updateChunksZ setHex w playerChunkX playerChunkZ cz = Some w' \<Longrightarrow>
   heightMap w' = heightMap w \<and> player w' = player w
   \<and> (\<forall>k. settled setHex w k \<longrightarrow> settled setHex w' k)
   \<and> (\<forall>c d. playerChunkX - RENDER_DISTANCE \<le> c \<and> c \<le> playerChunkX + RENDER_DISTANCE
          \<and> cz \<le> d \<and> d \<le> playerChunkZ + RENDER_DISTANCE \<longrightarrow> settled setHex w' (c, d))"
proof (induction setHex w playerChunkX playerChunkZ cz rule: updateChunksZ.induct)
  case (1 setHex w playerChunkX playerChunkZ cz)
  show ?case
  proof (cases "cz \<le> playerChunkZ + RENDER_DISTANCE")
    case False
    then show ?thesis using "1.prems" by (auto simp: updateChunksZ.simps)
  next
    case True
    obtain w1 where x: "updateChunksX setHex w playerChunkX cz (playerChunkX - RENDER_DISTANCE) = Some w1"
      and r: "updateChunksZ setHex w1 playerChunkX playerChunkZ (cz + 1) = Some w'"
      using "1.prems" True
      by (subst (asm) updateChunksZ.simps) (simp split: option.splits)
    note ih = "1.IH"[OF True x r]
    note xp = updateChunksX_post[OF x]
    have "settled setHex w' (c, d)"
      if "playerChunkX - RENDER_DISTANCE \<le> c" "c \<le> playerChunkX + RENDER_DISTANCE"
        "cz \<le> d" "d \<le> playerChunkZ + RENDER_DISTANCE" for c d
    proof (cases "d = cz")
      case True
      then have "settled setHex w1 (c, d)" using xp that by blast
      then show ?thesis using ih by blast
    next
      case False
      then have "cz + 1 \<le> d" using that by simp
      then show ?thesis using ih that by blast
    qed
    moreover have "\<forall>k. settled setHex w k \<longrightarrow> settled setHex w' k"
      using ih xp by blast
    ultimately show ?thesis using ih xp by simp
  qed
qed

lemma updateChunks_twice:
  assumes "updateChunks setHex w = Some w'"
  shows "updateChunks setHex w' = Some w'"
proof -
  define pcx where "pcx = \<lfloor>vx (position (player w)) / CHUNK_SIZE\<rfloor>"
  define pcz where "pcz = \<lfloor>vz (position (player w)) / CHUNK_SIZE\<rfloor>"
  have z: "updateChunksZ setHex w pcx pcz (pcz - RENDER_DISTANCE) = Some w'"
    using assms by (simp add: updateChunks_def pcx_def pcz_def Let_def)
  note zp = updateChunksZ_post[OF z]
  have "updateChunksZ setHex w' pcx pcz (pcz - RENDER_DISTANCE) = Some w'"
    by (rule updateChunksZ_noop) (use zp in blast)
  then show ?thesis
    using zp by (simp add: updateChunks_def pcx_def pcz_def Let_def)
qed

section \<open>Counting the vertices of a chunk\<close>

text \<open>
  \<open>addVoxel\<close> adds the six vertices of a top face, and the twenty-four of the side
  faces when the voxel is the topmost of its column; the loops add these up over the
  voxels of a column and the columns of a chunk.
\<close>

lemma triples_append:
  "length xs mod 3 = 0 \<Longrightarrow> triples (xs @ ys) = triples xs @ triples ys"
  by (induction xs rule: triples.induct) simp_all

lemma triples_replicate: "triples (concat (replicate n [a, b, c])) = replicate n (a, b, c)"
  by (induction n) simp_all

lemma length_replicate3: "length (concat (replicate n [a, b, c])) = 3 * n"
  by (induction n) simp_all

lemma length_triples: "length xs mod 3 = 0 \<Longrightarrow> 3 * length (triples xs) = length xs"
  by (induction xs rule: triples.induct) simp_all

lemma mod3_add18: "n mod 3 = 0 \<Longrightarrow> (n + 18) mod 3 = (0::nat)"
  by presburger

lemma wfBuffers_empty: "wfBuffers emptyBuffers"
  by (simp add: wfBuffers_def emptyBuffers_def)

lemma addFace_wf:
  assumes "wfBuffers b"
  shows "wfBuffers (addFace b vs [n0, n1, n2] col)"
    and "triples (normals (addFace b vs [n0, n1, n2] col))
         = triples (normals b) @ replicate 6 (n0, n1, n2)"
proof -
  have m: "length (normals b) mod 3 = 0" using assms by (simp add: wfBuffers_def)
  show "wfBuffers (addFace b vs [n0, n1, n2] col)"
    using assms by (simp add: wfBuffers_def addFace_def length_replicate3 mod3_add18)
  show "triples (normals (addFace b vs [n0, n1, n2] col))
         = triples (normals b) @ replicate 6 (n0, n1, n2)"
    by (simp add: addFace_def triples_append[OF m] triples_replicate)
qed

lemma addVoxel_wf:
  assumes "wfBuffers b"
  shows "wfBuffers (addVoxel setHex b x y z h)"
    and "triples (normals (addVoxel setHex b x y z h))
         = triples (normals b) @ replicate 6 (0, 1, 0) @ (if y = h - 1 then sideNormals else [])"
proof -
  define b1 where "b1 = b\<lparr>positions := positions b @
                    [real_of_int x, real_of_int y + 1, real_of_int z,
                     real_of_int x + 1, real_of_int y + 1, real_of_int z,
                     real_of_int x + 1, real_of_int y + 1, real_of_int z + 1,
                     real_of_int x, real_of_int y + 1, real_of_int z,
                     real_of_int x + 1, real_of_int y + 1, real_of_int z + 1,
                     real_of_int x, real_of_int y + 1, real_of_int z + 1],
                 normals := normals b @ concat (replicate 6 [0, 1, 0]),
                 colors := colors b @ concat (replicate 6
                   [cr (if y = h - 1 then setHex 3833146
                        else if y > h - 4 then setHex 9139029 else setHex 8421504),
                    cg (if y = h - 1 then setHex 3833146
                        else if y > h - 4 then setHex 9139029 else setHex 8421504),
                    cb (if y = h - 1 then setHex 3833146
                        else if y > h - 4 then setHex 9139029 else setHex 8421504)])\<rparr>"
  have m: "length (normals b) mod 3 = 0" using assms by (simp add: wfBuffers_def)
  have w1: "wfBuffers b1"
    using assms by (simp add: wfBuffers_def b1_def length_replicate3 mod3_add18)
  have t1: "triples (normals b1) = triples (normals b) @ replicate 6 (0, 1, 0)"
    by (simp add: b1_def triples_append[OF m] triples_replicate)
  show "wfBuffers (addVoxel setHex b x y z h)"
    unfolding addVoxel_def Let_def b1_def[symmetric]
    by (simp add: w1 addFace_wf(1))
  show "triples (normals (addVoxel setHex b x y z h))
         = triples (normals b) @ replicate 6 (0, 1, 0) @ (if y = h - 1 then sideNormals else [])"
    unfolding addVoxel_def Let_def b1_def[symmetric]
    by (simp add: w1 t1 addFace_wf sideNormals_def)
qed

lemma addVoxel_counts:
  assumes "wfBuffers b"
  shows "topFaceVertices (addVoxel setHex b x y z h) = topFaceVertices b + 6"
    and "sideFaceVertices (addVoxel setHex b x y z h)
         = sideFaceVertices b + (if y = h - 1 then 24 else 0)"
  by (simp_all add: topFaceVertices_def sideFaceVertices_def addVoxel_wf(2)[OF assms]
      sideNormals_def)

lemma voxelLoop_counts:
  "wfBuffers b \<Longrightarrow>
   wfBuffers (voxelLoop setHex b worldX worldZ h y)
   \<and> topFaceVertices (voxelLoop setHex b worldX worldZ h y) = topFaceVertices b + 6 * nat (h - y)
   \<and> sideFaceVertices (voxelLoop setHex b worldX worldZ h y)
       = sideFaceVertices b + (if y < h then 24 else 0)"
proof (induction setHex b worldX worldZ h y rule: voxelLoop.induct)
  case (1 setHex b worldX worldZ h y)
  show ?case
  proof (cases "y < h")
    case False
    then show ?thesis using "1.prems" by (simp add: voxelLoop.simps)
  next
    case True
    let ?b = "addVoxel setHex b worldX y worldZ h"
    have w: "wfBuffers ?b" using "1.prems" by (rule addVoxel_wf(1))
    note ih = "1.IH"[OF True w]
    have n: "6 + 6 * nat (h - (y + 1)) = 6 * nat (h - y)"
      using True by (simp add: nat_diff_distrib)
    have "voxelLoop setHex b worldX worldZ h y = voxelLoop setHex ?b worldX worldZ h (y + 1)"
      using True by (subst voxelLoop.simps) simp
    then show ?thesis
      using ih n True by (auto simp: addVoxel_counts[OF "1.prems"])
  qed
qed

lemma chunkXLoop_counts:
  "wfHeightMap hm \<Longrightarrow> wfBuffers b \<Longrightarrow> x \<le> CHUNK_SIZE \<Longrightarrow>
   \<exists>b'. chunkXLoop setHex hm chunkX chunkZ z x b = Some b' \<and> wfBuffers b'
      \<and> topFaceVertices b' = topFaceVertices b
          + 6 * (\<Sum>k = x..<CHUNK_SIZE. nat (columnCell hm chunkX chunkZ k z))
      \<and> sideFaceVertices b' = sideFaceVertices b
          + (\<Sum>k = x..<CHUNK_SIZE. if 0 < columnCell hm chunkX chunkZ k z then 24 else 0)"
proof (induction setHex hm chunkX chunkZ z x b rule: chunkXLoop.induct)
  case (1 setHex hm chunkX chunkZ z x b)
  show ?case
  proof (cases "x < CHUNK_SIZE")
    case False
    then show ?thesis using "1.prems" by (simp add: chunkXLoop.simps)
  next
    case True
    define h where "h = columnCell hm chunkX chunkZ x z"
    have c: "columnHeight hm chunkX chunkZ x z = Some h"
      using columnHeight_wf[OF "1.prems"(1)] by (simp add: h_def columnCell_def)
    let ?b = "voxelLoop setHex b (chunkX * CHUNK_SIZE + int x) (chunkZ * CHUNK_SIZE + int z) h 0"
    note v = voxelLoop_counts[OF "1.prems"(2), of setHex "chunkX * CHUNK_SIZE + int x"
        "chunkZ * CHUNK_SIZE + int z" h 0]
    from "1.IH"[OF True c "1.prems"(1)] v True
    obtain b' where r: "chunkXLoop setHex hm chunkX chunkZ z (x + 1) ?b = Some b'"
      and w: "wfBuffers b'"
      and t: "topFaceVertices b' = topFaceVertices ?b
          + 6 * (\<Sum>k = x + 1..<CHUNK_SIZE. nat (columnCell hm chunkX chunkZ k z))"
      and s: "sideFaceVertices b' = sideFaceVertices ?b
          + (\<Sum>k = x + 1..<CHUNK_SIZE. if 0 < columnCell hm chunkX chunkZ k z then 24 else 0)"
      by auto
    have "chunkXLoop setHex hm chunkX chunkZ z x b = Some b'"
      using True c r by (subst chunkXLoop.simps) simp
    moreover have "topFaceVertices b' = topFaceVertices b
          + 6 * (\<Sum>k = x..<CHUNK_SIZE. nat (columnCell hm chunkX chunkZ k z))"
      using t v True by (simp add: sum.atLeast_Suc_lessThan h_def)
    moreover have "sideFaceVertices b' = sideFaceVertices b
          + (\<Sum>k = x..<CHUNK_SIZE. if 0 < columnCell hm chunkX chunkZ k z then 24 else 0)"
      using s v True by (simp add: sum.atLeast_Suc_lessThan h_def)
    ultimately show ?thesis using w by blast
  qed
qed

lemma chunkZLoop_counts:
  "wfHeightMap hm \<Longrightarrow> wfBuffers b \<Longrightarrow> z \<le> CHUNK_SIZE \<Longrightarrow>
   \<exists>b'. chunkZLoop setHex hm chunkX chunkZ z b = Some b' \<and> wfBuffers b'
      \<and> topFaceVertices b' = topFaceVertices b
          + 6 * (\<Sum>j = z..<CHUNK_SIZE. \<Sum>k = 0..<CHUNK_SIZE. nat (columnCell hm chunkX chunkZ k j))
      \<and> sideFaceVertices b' = sideFaceVertices b
          + (\<Sum>j = z..<CHUNK_SIZE. \<Sum>k = 0..<CHUNK_SIZE.
               if 0 < columnCell hm chunkX chunkZ k j then 24 else 0)"
proof (induction setHex hm chunkX chunkZ z b rule: chunkZLoop.induct)
  case (1 setHex hm chunkX chunkZ z b)
  show ?case
  proof (cases "z < CHUNK_SIZE")
    case False
    then show ?thesis using "1.prems" by (simp add: chunkZLoop.simps)
  next
    case True
    obtain b1 where x: "chunkXLoop setHex hm chunkX chunkZ z 0 b = Some b1"
      and w1: "wfBuffers b1"
      and t1: "topFaceVertices b1 = topFaceVertices b
          + 6 * (\<Sum>k = 0..<CHUNK_SIZE. nat (columnCell hm chunkX chunkZ k z))"
      and s1: "sideFaceVertices b1 = sideFaceVertices b
          + (\<Sum>k = 0..<CHUNK_SIZE. if 0 < columnCell hm chunkX chunkZ k z then 24 else 0)"
      using chunkXLoop_counts[OF "1.prems"(1,2), of 0 setHex chunkX chunkZ z] by auto
    from "1.IH"[OF True x "1.prems"(1) w1] True
    obtain b' where r: "chunkZLoop setHex hm chunkX chunkZ (z + 1) b1 = Some b'"
      and w: "wfBuffers b'"
      and t: "topFaceVertices b' = topFaceVertices b1
          + 6 * (\<Sum>j = z + 1..<CHUNK_SIZE. \<Sum>k = 0..<CHUNK_SIZE. nat (columnCell hm chunkX chunkZ k j))"
      and s: "sideFaceVertices b' = sideFaceVertices b1
          + (\<Sum>j = z + 1..<CHUNK_SIZE. \<Sum>k = 0..<CHUNK_SIZE.
               if 0 < columnCell hm chunkX chunkZ k j then 24 else 0)"
      by auto
    have "chunkZLoop setHex hm chunkX chunkZ z b = Some b'"
      using True x r by (subst chunkZLoop.simps) simp
    moreover have "topFaceVertices b' = topFaceVertices b
          + 6 * (\<Sum>j = z..<CHUNK_SIZE. \<Sum>k = 0..<CHUNK_SIZE. nat (columnCell hm chunkX chunkZ k j))"
      using t t1 True by (simp add: sum.atLeast_Suc_lessThan[of z] algebra_simps)
    moreover have "sideFaceVertices b' = sideFaceVertices b
          + (\<Sum>j = z..<CHUNK_SIZE. \<Sum>k = 0..<CHUNK_SIZE.
               if 0 < columnCell hm chunkX chunkZ k j then 24 else 0)"
      using s s1 True by (simp add: sum.atLeast_Suc_lessThan[of z] algebra_simps)
    ultimately show ?thesis using w by blast
  qed
qed

section \<open>The vertex list of a chunk\<close>

text \<open>
  \<open>addVoxel\<close> appends the vertices of one voxel; the loops of \<open>generateChunk\<close> append
  those of a column, bottom up, and of the columns in the order of the loops.
\<close>

lemma vertices_append:
  assumes "wfBuffers b" "length ps = length ns"
  shows "vertices (b\<lparr>positions := positions b @ ps, normals := normals b @ ns, colors := cs\<rparr>)
         = vertices b @ zip (triples ps) (triples ns)"
proof -
  have m: "length (normals b) mod 3 = 0" "length (positions b) mod 3 = 0"
    and e: "length (positions b) = length (normals b)"
    using assms(1) by (simp_all add: wfBuffers_def)
  have "3 * length (triples (positions b)) = 3 * length (triples (normals b))"
    using length_triples[OF m(1)] length_triples[OF m(2)] e by simp
  then have "length (triples (positions b)) = length (triples (normals b))" by simp
  then show ?thesis
    by (simp add: vertices_def triples_append[OF m(1)] triples_append[OF m(2)])
qed

lemma replicate6: "replicate 6 a = [a, a, a, a, a, a]"
  by (simp add: numeral_eq_Suc)

lemma addFace_vertices:
  assumes "wfBuffers b"
  shows "vertices (addFace b [a0, a1, a2, b0, b1, b2, c0, c1, c2, d0, d1, d2] [n0, n1, n2] col)
         = vertices b @ quad [(a0, a1, a2), (b0, b1, b2), (c0, c1, c2), (d0, d1, d2)] (n0, n1, n2)"
  unfolding addFace_def
  by (subst vertices_append[OF assms]) (simp_all add: quad_def replicate6)

lemma addVoxel_vertices:
  assumes "wfBuffers b"
  shows "vertices (addVoxel setHex b x y z h) = vertices b @ voxelVertices x y z h"
proof -
  define col where "col = (if y = h - 1 then setHex 3833146
                        else if y > h - 4 then setHex 9139029 else setHex 8421504)"
  define b1 where "b1 = b\<lparr>positions := positions b @
                    [real_of_int x, real_of_int y + 1, real_of_int z,
                     real_of_int x + 1, real_of_int y + 1, real_of_int z,
                     real_of_int x + 1, real_of_int y + 1, real_of_int z + 1,
                     real_of_int x, real_of_int y + 1, real_of_int z,
                     real_of_int x + 1, real_of_int y + 1, real_of_int z + 1,
                     real_of_int x, real_of_int y + 1, real_of_int z + 1],
                 normals := normals b @ concat (replicate 6 [0, 1, 0]),
                 colors := colors b @ concat (replicate 6 [cr col, cg col, cb col])\<rparr>"
  have w1: "wfBuffers b1"
    using assms by (simp add: wfBuffers_def b1_def length_replicate3 mod3_add18)
  have v1: "vertices b1 = vertices b @ topFaceAt x y z"
    unfolding b1_def
    by (subst vertices_append[OF assms]) (simp_all add: topFaceAt_def quad_def replicate6 Let_def)
  note w2 = addFace_wf(1)[OF w1]
  note w3 = addFace_wf(1)[OF w2]
  note w4 = addFace_wf(1)[OF w3]
  show ?thesis
    unfolding addVoxel_def Let_def col_def[symmetric] b1_def[symmetric]
    by (simp add: v1 voxelVertices_def sideFacesAt_def Let_def
        addFace_vertices[OF w1] addFace_vertices[OF w2] addFace_vertices[OF w3]
        addFace_vertices[OF w4])
qed

lemma voxelLoop_vertices:
  "wfBuffers b \<Longrightarrow> 0 \<le> y \<Longrightarrow>
   vertices (voxelLoop setHex b worldX worldZ h y)
   = vertices b @ concat (map (\<lambda>k. voxelVertices worldX (int k) worldZ h) [nat y..<nat h])"
proof (induction setHex b worldX worldZ h y rule: voxelLoop.induct)
  case (1 setHex b worldX worldZ h y)
  show ?case
  proof (cases "y < h")
    case False
    then show ?thesis by (simp add: voxelLoop.simps)
  next
    case True
    let ?b = "addVoxel setHex b worldX y worldZ h"
    have w: "wfBuffers ?b" using "1.prems"(1) by (rule addVoxel_wf(1))
    have u: "[nat y..<nat h] = nat y # [nat (y + 1)..<nat h]"
      using True "1.prems"(2) by (simp add: upt_conv_Cons nat_add_distrib)
    have "vertices (voxelLoop setHex ?b worldX worldZ h (y + 1))
          = vertices ?b @ concat (map (\<lambda>k. voxelVertices worldX (int k) worldZ h)
                                    [nat (y + 1)..<nat h])"
      using "1.IH"[OF True w] "1.prems"(2) by simp
    moreover have "voxelLoop setHex b worldX worldZ h y
                   = voxelLoop setHex ?b worldX worldZ h (y + 1)"
      using True by (subst voxelLoop.simps) simp
    ultimately show ?thesis
      using "1.prems"(2) by (simp add: u addVoxel_vertices[OF "1.prems"(1)])
  qed
qed

lemma column_vertices:
  assumes "wfBuffers b"
  shows "vertices (voxelLoop setHex b worldX worldZ h 0) = vertices b @ columnVertices worldX worldZ h"
  using voxelLoop_vertices[OF assms, of 0 setHex worldX worldZ h] by (simp add: columnVertices_def)

lemma voxelLoop_wf: "wfBuffers b \<Longrightarrow> wfBuffers (voxelLoop setHex b worldX worldZ h y)"
  using voxelLoop_counts by blast

lemma chunkXLoop_vertices:
  "wfHeightMap hm \<Longrightarrow> wfBuffers b \<Longrightarrow> chunkXLoop setHex hm chunkX chunkZ z x b = Some b' \<Longrightarrow>
   vertices b' = vertices b @ concat (map (\<lambda>k.
       columnVertices (chunkX * CHUNK_SIZE + int k) (chunkZ * CHUNK_SIZE + int z)
         (columnCell hm chunkX chunkZ k z)) [x..<CHUNK_SIZE])"
proof (induction setHex hm chunkX chunkZ z x b rule: chunkXLoop.induct)
  case (1 setHex hm chunkX chunkZ z x b)
  show ?case
  proof (cases "x < CHUNK_SIZE")
    case False
    then show ?thesis using "1.prems" by (simp add: chunkXLoop.simps)
  next
    case True
    define h where "h = columnCell hm chunkX chunkZ x z"
    have c: "columnHeight hm chunkX chunkZ x z = Some h"
      using columnHeight_wf[OF "1.prems"(1)] by (simp add: h_def columnCell_def)
    let ?b = "voxelLoop setHex b (chunkX * CHUNK_SIZE + int x) (chunkZ * CHUNK_SIZE + int z) h 0"
    have w: "wfBuffers ?b" using "1.prems"(2) by (rule voxelLoop_wf)
    have r: "chunkXLoop setHex hm chunkX chunkZ z (x + 1) ?b = Some b'"
      using "1.prems"(3) True c by (subst (asm) chunkXLoop.simps) simp
    have "vertices b' = vertices ?b @ concat (map (\<lambda>k.
       columnVertices (chunkX * CHUNK_SIZE + int k) (chunkZ * CHUNK_SIZE + int z)
         (columnCell hm chunkX chunkZ k z)) [x + 1..<CHUNK_SIZE])"
      using "1.IH"[OF True c "1.prems"(1) w r] .
    then show ?thesis
      using True by (simp add: column_vertices[OF "1.prems"(2)] upt_conv_Cons[of x] h_def)
  qed
qed

lemma chunkXLoop_wf:
  assumes "wfHeightMap hm" "wfBuffers b" "x \<le> CHUNK_SIZE"
    "chunkXLoop setHex hm chunkX chunkZ z x b = Some b'"
  shows "wfBuffers b'"
  using chunkXLoop_counts[OF assms(1,2,3), of setHex chunkX chunkZ z] assms(4) by auto

lemma chunkZLoop_vertices:
  "wfHeightMap hm \<Longrightarrow> wfBuffers b \<Longrightarrow> chunkZLoop setHex hm chunkX chunkZ z b = Some b' \<Longrightarrow>
   vertices b' = vertices b @ concat (map (\<lambda>j. concat (map (\<lambda>k.
       columnVertices (chunkX * CHUNK_SIZE + int k) (chunkZ * CHUNK_SIZE + int j)
         (columnCell hm chunkX chunkZ k j)) [0..<CHUNK_SIZE])) [z..<CHUNK_SIZE])"
proof (induction setHex hm chunkX chunkZ z b rule: chunkZLoop.induct)
  case (1 setHex hm chunkX chunkZ z b)
  show ?case
  proof (cases "z < CHUNK_SIZE")
    case False
    then show ?thesis using "1.prems" by (simp add: chunkZLoop.simps)
  next
    case True
    obtain b1 where x: "chunkXLoop setHex hm chunkX chunkZ z 0 b = Some b1"
      and r: "chunkZLoop setHex hm chunkX chunkZ (z + 1) b1 = Some b'"
      using "1.prems"(3) True
      by (subst (asm) chunkZLoop.simps) (simp split: option.splits)
    have w1: "wfBuffers b1"
      using chunkXLoop_wf[OF "1.prems"(1,2) _ x] by simp
    note v1 = chunkXLoop_vertices[OF "1.prems"(1,2) x]
    note ih = "1.IH"[OF True x "1.prems"(1) w1 r]
    show ?thesis
      using True by (simp add: ih v1 upt_conv_Cons[of z])
  qed
qed

lemma chunkBuffers_vertices:
  assumes "wfHeightMap hm" "chunkBuffers setHex hm chunkX chunkZ = Some mesh"
  shows "vertices mesh = concat (map (\<lambda>j. concat (map (\<lambda>k.
       columnVertices (chunkX * CHUNK_SIZE + int k) (chunkZ * CHUNK_SIZE + int j)
         (columnCell hm chunkX chunkZ k j)) [0..<CHUNK_SIZE])) [0..<CHUNK_SIZE])"
  using chunkZLoop_vertices[OF assms(1) wfBuffers_empty assms(2)[unfolded chunkBuffers_def]]
  by (simp add: vertices_def emptyBuffers_def)

lemma filter_side_top: "filter isSideVertex (topFaceAt x y z) = []"
  by (simp add: topFaceAt_def quad_def isSideVertex_def Let_def)

lemma filter_side_sides: "filter isSideVertex (sideFacesAt x y z) = sideFacesAt x y z"
  by (simp add: sideFacesAt_def quad_def isSideVertex_def Let_def)

lemma filter_side_below:
  "n \<le> nat (h - 1) \<Longrightarrow>
   filter isSideVertex (concat (map (\<lambda>k. voxelVertices x (int k) z h) [0..<n])) = []"
  by (induction n) (auto simp: voxelVertices_def filter_side_top)

lemma column_side_faces:
  assumes "1 \<le> h"
  shows "filter isSideVertex (columnVertices x z h) = sideFacesAt x (h - 1) z"
proof -
  have n: "nat h = Suc (nat (h - 1))" "int (nat (h - 1)) = h - 1"
    using assms by simp_all
  have "columnVertices x z h
        = concat (map (\<lambda>k. voxelVertices x (int k) z h) [0..<nat (h - 1)])
          @ voxelVertices x (h - 1) z h"
    unfolding columnVertices_def n(1) using assms by (simp add: n(2))
  then have "filter isSideVertex (columnVertices x z h)
        = filter isSideVertex (voxelVertices x (h - 1) z h)"
    by (simp add: filter_side_below)
  then show ?thesis
    by (simp add: voxelVertices_def filter_side_top filter_side_sides)
qed

lemma column_top_faces:
  "filter (\<lambda>v. \<not> isSideVertex v) (columnVertices x z h)
   = concat (map (\<lambda>k. topFaceAt x (int k) z) [0..<nat h])"
proof -
  have t: "filter (\<lambda>v. \<not> isSideVertex v) (topFaceAt x y z) = topFaceAt x y z" for y
    by (simp add: topFaceAt_def quad_def isSideVertex_def Let_def)
  have s: "filter (\<lambda>v. \<not> isSideVertex v) (sideFacesAt x y z) = []" for y
    by (simp add: sideFacesAt_def quad_def isSideVertex_def Let_def)
  have "filter (\<lambda>v. \<not> isSideVertex v) (concat (map (\<lambda>k. voxelVertices x (int k) z h) [0..<n]))
        = concat (map (\<lambda>k. topFaceAt x (int k) z) [0..<n])" for n
    by (induction n) (simp_all add: voxelVertices_def t s)
  then show ?thesis by (simp add: columnVertices_def)
qed

section \<open>The mesh of a chunk and repeated chunk loading\<close>

lemma chunkBuffers_counts:
  assumes "wfHeightMap hm"
  obtains mesh where "chunkBuffers setHex hm chunkX chunkZ = Some mesh" and "wfBuffers mesh"
    and "topFaceVertices mesh
         = 6 * (\<Sum>j = 0..<CHUNK_SIZE. \<Sum>k = 0..<CHUNK_SIZE. nat (columnCell hm chunkX chunkZ k j))"
    and "sideFaceVertices mesh
         = (\<Sum>j = 0..<CHUNK_SIZE. \<Sum>k = 0..<CHUNK_SIZE.
               if 0 < columnCell hm chunkX chunkZ k j then 24 else 0)"
proof -
  have e: "topFaceVertices emptyBuffers = 0" "sideFaceVertices emptyBuffers = 0"
    by (simp_all add: topFaceVertices_def sideFaceVertices_def emptyBuffers_def)
  show ?thesis
    using chunkZLoop_counts[OF assms wfBuffers_empty, of 0 setHex chunkX chunkZ] that
    unfolding chunkBuffers_def e by auto
qed

lemma vertex_total:
  assumes "wfBuffers b"
  shows "length (positions b) = 3 * (topFaceVertices b + sideFaceVertices b)"
proof -
  have "topFaceVertices b + sideFaceVertices b = length (triples (normals b))"
    unfolding topFaceVertices_def sideFaceVertices_def by (rule sum_length_filter_compl)
  then show ?thesis
    using assms length_triples[of "normals b"] by (simp add: wfBuffers_def)
qed

lemma columnCell_origin:
  assumes "k < CHUNK_SIZE" "j < CHUNK_SIZE"
  shows "columnCell hm 0 0 k j = hm ! j ! k"
  using assms by (simp add: columnCell_def wrap_mod)

lemma cell_mem:
  assumes "wfHeightMap hm" "j < WORLD_SIZE" "k < WORLD_SIZE"
  shows "hm ! j \<in> set hm" "hm ! j ! k \<in> set (hm ! j)"
proof -
  show r: "hm ! j \<in> set hm" using assms by (simp add: wfHeightMap_def)
  then have "length (hm ! j) = WORLD_SIZE" using assms(1) by (simp add: wfHeightMap_def)
  then show "hm ! j ! k \<in> set (hm ! j)" using assms(3) by simp
qed

lemma chunk00_counts:
  assumes "wfHeightMap hm" and "\<forall>row \<in> set hm. \<forall>height \<in> set row. 5 \<le> height"
  obtains mesh where "chunkBuffers setHex hm 0 0 = Some mesh"
    and "topFaceVertices mesh = 6 * (\<Sum>z = 0..<CHUNK_SIZE. \<Sum>x = 0..<CHUNK_SIZE. nat (hm ! z ! x))"
    and "sideFaceVertices mesh = CHUNK_SIZE * CHUNK_SIZE * (4 * 6)"
    and "CHUNK_SIZE * CHUNK_SIZE * 5 * 6 \<le> topFaceVertices mesh"
    and "length (positions mesh) = 3 * (topFaceVertices mesh + sideFaceVertices mesh)"
proof -
  obtain mesh where m: "chunkBuffers setHex hm 0 0 = Some mesh" and w: "wfBuffers mesh"
    and t: "topFaceVertices mesh
         = 6 * (\<Sum>j = 0..<CHUNK_SIZE. \<Sum>k = 0..<CHUNK_SIZE. nat (columnCell hm 0 0 k j))"
    and s: "sideFaceVertices mesh
         = (\<Sum>j = 0..<CHUNK_SIZE. \<Sum>k = 0..<CHUNK_SIZE.
               if 0 < columnCell hm 0 0 k j then 24 else 0)"
    using assms(1) by (rule chunkBuffers_counts)
  have five: "5 \<le> hm ! j ! k" if "j < CHUNK_SIZE" "k < CHUNK_SIZE" for j k
    using cell_mem[OF assms(1), of j k] assms(2) that by auto
  have t': "topFaceVertices mesh = 6 * (\<Sum>z = 0..<CHUNK_SIZE. \<Sum>x = 0..<CHUNK_SIZE. nat (hm ! z ! x))"
    unfolding t
    by (intro arg_cong[where f="(*) 6"] sum.cong refl) (simp add: columnCell_origin)
  have "(\<Sum>j = 0..<CHUNK_SIZE. \<Sum>k = 0..<CHUNK_SIZE.
               if 0 < columnCell hm 0 0 k j then 24 else 0)
        = (\<Sum>j = 0..<(CHUNK_SIZE::nat). \<Sum>k = 0..<(CHUNK_SIZE::nat). (24::nat))"
    by (intro sum.cong refl) (use five in \<open>force simp: columnCell_origin\<close>)
  then have s': "sideFaceVertices mesh = CHUNK_SIZE * CHUNK_SIZE * (4 * 6)"
    unfolding s by simp
  have "(\<Sum>z = 0..<(CHUNK_SIZE::nat). \<Sum>x = 0..<(CHUNK_SIZE::nat). (5::nat))
        \<le> (\<Sum>z = 0..<CHUNK_SIZE. \<Sum>x = 0..<CHUNK_SIZE. nat (hm ! z ! x))"
    by (intro sum_mono) (use five in force)
  then have b: "CHUNK_SIZE * CHUNK_SIZE * 5 * 6 \<le> topFaceVertices mesh"
    unfolding t' by simp
  show ?thesis
    using that[OF m t' s' b vertex_total[OF w]] .
qed

lemma generateHeightMap_cells:
  assumes "reachable s p"
  shows "\<forall>row \<in> set (fst (generateHeightMap p)).
           length row = WORLD_SIZE \<and> (\<forall>height \<in> set row. 5 \<le> height \<and> height \<le> 25)"
  by (auto simp: generateHeightMap_reachable[OF assms] heightRow_def heightFormula_range)

lemma constructWorld_heights:
  "\<forall>row \<in> set (heightMap (constructWorld now)). \<forall>height \<in> set row. 5 \<le> height"
  unfolding heightMap_constructWorld
  using generateHeightMap_cells[OF reachable.constructed, of now] by blast

lemma chunk00_vertex_list:
  assumes "wfHeightMap hm" "chunkBuffers setHex hm 0 0 = Some mesh"
  shows "vertices mesh = concat (map (\<lambda>z. concat (map (\<lambda>x.
           columnVertices (int x) (int z) (hm ! z ! x)) [0..<CHUNK_SIZE])) [0..<CHUNK_SIZE])"
proof -
  have row: "map (\<lambda>k. columnVertices (int k) (int j) (columnCell hm 0 0 k j)) [0..<CHUNK_SIZE]
        = map (\<lambda>x. columnVertices (int x) (int j) (hm ! j ! x)) [0..<CHUNK_SIZE]"
    if "j < CHUNK_SIZE" for j
    by (rule map_cong[OF refl]) (use that in \<open>simp add: columnCell_origin\<close>)
  have rows: "map (\<lambda>j. concat (map (\<lambda>k. columnVertices (int k) (int j) (columnCell hm 0 0 k j))
                  [0..<CHUNK_SIZE])) [0..<CHUNK_SIZE]
        = map (\<lambda>z. concat (map (\<lambda>x. columnVertices (int x) (int z) (hm ! z ! x))
                  [0..<CHUNK_SIZE])) [0..<CHUNK_SIZE]"
    by (rule map_cong[OF refl]) (simp add: row)
  have "vertices mesh
        = concat (map (\<lambda>j. concat (map (\<lambda>k. columnVertices (int k) (int j)
            (columnCell hm 0 0 k j)) [0..<CHUNK_SIZE])) [0..<CHUNK_SIZE])"
    using chunkBuffers_vertices[OF assms] by simp
  also have "\<dots> = concat (map (\<lambda>z. concat (map (\<lambda>x.
           columnVertices (int x) (int z) (hm ! z ! x)) [0..<CHUNK_SIZE])) [0..<CHUNK_SIZE])"
    by (rule arg_cong[where f = concat]) (rule rows)
  finally show ?thesis .
qed

text \<open>
  C4, as the code has it.  On a well-formed height map whose heights are at least \<open>5\<close>
  (the built one is such), meshing chunk \<open>(0, 0)\<close> succeeds.  Its vertices are, column
  after column in the order of the loops, the vertices \<open>columnVertices\<close> of each column:
  one top face of \<open>6\<close> vertices for every voxel of the column, and the \<open>4\<close> side faces
  of \<open>6\<close> vertices each once, for the topmost voxel \<open>y = height - 1\<close>.  So the side-face
  vertices of a column are those of its topmost voxel and no others, and its top-face
  vertices are the top faces of all its voxels.  In all there are \<open>6\<close> times the sum of
  the \<open>16 * 16\<close> column heights top-face vertices, at least \<open>16 * 16 * 5 * 6\<close>, and
  \<open>16 * 16 * 4 * 6\<close> side-face vertices, and no other vertices.
\<close>

theorem chunk00_vertices:
  assumes "wfHeightMap hm" and "\<forall>row \<in> set hm. \<forall>height \<in> set row. 5 \<le> height"
  shows "\<exists>mesh. chunkBuffers setHex hm 0 0 = Some mesh
     \<and> vertices mesh = concat (map (\<lambda>z. concat (map (\<lambda>x.
           columnVertices (int x) (int z) (hm ! z ! x)) [0..<CHUNK_SIZE])) [0..<CHUNK_SIZE])
     \<and> (\<forall>z < CHUNK_SIZE. \<forall>x < CHUNK_SIZE.
           filter isSideVertex (columnVertices (int x) (int z) (hm ! z ! x))
             = sideFacesAt (int x) (hm ! z ! x - 1) (int z)
         \<and> filter (\<lambda>v. \<not> isSideVertex v) (columnVertices (int x) (int z) (hm ! z ! x))
             = concat (map (\<lambda>y. topFaceAt (int x) (int y) (int z)) [0..<nat (hm ! z ! x)]))
     \<and> topFaceVertices mesh = 6 * (\<Sum>z = 0..<CHUNK_SIZE. \<Sum>x = 0..<CHUNK_SIZE. nat (hm ! z ! x))
     \<and> CHUNK_SIZE * CHUNK_SIZE * 5 * 6 \<le> topFaceVertices mesh
     \<and> sideFaceVertices mesh = CHUNK_SIZE * CHUNK_SIZE * (4 * 6)
     \<and> length (positions mesh) = 3 * (topFaceVertices mesh + sideFaceVertices mesh)"
proof -
  obtain mesh where m: "chunkBuffers setHex hm 0 0 = Some mesh"
    and t: "topFaceVertices mesh = 6 * (\<Sum>z = 0..<CHUNK_SIZE. \<Sum>x = 0..<CHUNK_SIZE. nat (hm ! z ! x))"
    and s: "sideFaceVertices mesh = CHUNK_SIZE * CHUNK_SIZE * (4 * 6)"
    and b: "CHUNK_SIZE * CHUNK_SIZE * 5 * 6 \<le> topFaceVertices mesh"
    and l: "length (positions mesh) = 3 * (topFaceVertices mesh + sideFaceVertices mesh)"
    using assms by (rule chunk00_counts)
  have five: "5 \<le> hm ! z ! x" if "z < CHUNK_SIZE" "x < CHUNK_SIZE" for z x
    using cell_mem[OF assms(1), of z x] assms(2) that by auto
  have side: "filter isSideVertex (columnVertices (int x) (int z) (hm ! z ! x))
             = sideFacesAt (int x) (hm ! z ! x - 1) (int z)"
    if "z < CHUNK_SIZE" "x < CHUNK_SIZE" for z x
    by (rule column_side_faces) (use five[OF that] in simp)
  show ?thesis
    using m chunk00_vertex_list[OF assms(1) m] side column_top_faces t s b l by blast
qed

text \<open>
  An instance of C4 as amended: the world constructed with seed \<open>42\<close>, and the column
  \<open>x = 7\<close>, \<open>z = 3\<close> of its chunk \<open>(0, 0)\<close>.
\<close>

theorem chunk00_vertices_witness:
  "wfHeightMap (heightMap (constructWorld 42))
   \<and> (\<exists>mesh. chunkBuffers plainSetHex (heightMap (constructWorld 42)) 0 0 = Some mesh
     \<and> vertices mesh = concat (map (\<lambda>z. concat (map (\<lambda>x.
           columnVertices (int x) (int z) (heightMap (constructWorld 42) ! z ! x))
             [0..<CHUNK_SIZE])) [0..<CHUNK_SIZE])
     \<and> filter isSideVertex (columnVertices 7 3 (heightMap (constructWorld 42) ! 3 ! 7))
         = sideFacesAt 7 (heightMap (constructWorld 42) ! 3 ! 7 - 1) 3
     \<and> topFaceVertices mesh
        = 6 * (\<Sum>z = 0..<CHUNK_SIZE. \<Sum>x = 0..<CHUNK_SIZE. nat (heightMap (constructWorld 42) ! z ! x))
     \<and> CHUNK_SIZE * CHUNK_SIZE * 5 * 6 \<le> topFaceVertices mesh
     \<and> sideFaceVertices mesh = CHUNK_SIZE * CHUNK_SIZE * (4 * 6)
     \<and> length (positions mesh) = 3 * (topFaceVertices mesh + sideFaceVertices mesh))"
proof -
  note t = chunk00_vertices[where hm = "heightMap (constructWorld 42)" and setHex = plainSetHex,
      OF wf_constructWorld constructWorld_heights]
  then obtain mesh where m: "chunkBuffers plainSetHex (heightMap (constructWorld 42)) 0 0 = Some mesh
     \<and> vertices mesh = concat (map (\<lambda>z. concat (map (\<lambda>x.
           columnVertices (int x) (int z) (heightMap (constructWorld 42) ! z ! x))
             [0..<CHUNK_SIZE])) [0..<CHUNK_SIZE])
     \<and> (\<forall>z < CHUNK_SIZE. \<forall>x < CHUNK_SIZE.
           filter isSideVertex (columnVertices (int x) (int z) (heightMap (constructWorld 42) ! z ! x))
             = sideFacesAt (int x) (heightMap (constructWorld 42) ! z ! x - 1) (int z)
         \<and> filter (\<lambda>v. \<not> isSideVertex v)
               (columnVertices (int x) (int z) (heightMap (constructWorld 42) ! z ! x))
             = concat (map (\<lambda>y. topFaceAt (int x) (int y) (int z))
                 [0..<nat (heightMap (constructWorld 42) ! z ! x)]))
     \<and> topFaceVertices mesh
        = 6 * (\<Sum>z = 0..<CHUNK_SIZE. \<Sum>x = 0..<CHUNK_SIZE. nat (heightMap (constructWorld 42) ! z ! x))
     \<and> CHUNK_SIZE * CHUNK_SIZE * 5 * 6 \<le> topFaceVertices mesh
     \<and> sideFaceVertices mesh = CHUNK_SIZE * CHUNK_SIZE * (4 * 6)
     \<and> length (positions mesh) = 3 * (topFaceVertices mesh + sideFaceVertices mesh)"
    by blast
  then have q: "\<forall>z < CHUNK_SIZE. \<forall>x < CHUNK_SIZE.
           filter isSideVertex (columnVertices (int x) (int z) (heightMap (constructWorld 42) ! z ! x))
             = sideFacesAt (int x) (heightMap (constructWorld 42) ! z ! x - 1) (int z)"
    by blast
  have "filter isSideVertex (columnVertices (int 7) (int 3) (heightMap (constructWorld 42) ! 3 ! 7))
         = sideFacesAt (int 7) (heightMap (constructWorld 42) ! 3 ! 7 - 1) (int 3)"
    using q[rule_format, of 3 7] by simp
  then have "filter isSideVertex (columnVertices 7 3 (heightMap (constructWorld 42) ! 3 ! 7))
         = sideFacesAt 7 (heightMap (constructWorld 42) ! 3 ! 7 - 1) 3"
    by simp
  with m wf_constructWorld[of 42] show ?thesis by blast
qed

text \<open>
  C4 as stated fails: in the world constructed with seed \<open>42\<close> the mesh of chunk
  \<open>(0, 0)\<close> does not have exactly \<open>16 * 16 * 6\<close> top-face vertices.
\<close>

theorem chunk00_top_faces_counterexample:
  "chunkBuffers plainSetHex (heightMap (constructWorld 42)) 0 0 \<noteq> None
   \<and> topFaceVertices (the (chunkBuffers plainSetHex (heightMap (constructWorld 42)) 0 0))
       \<noteq> CHUNK_SIZE * CHUNK_SIZE * 6"
proof -
  obtain mesh where "chunkBuffers plainSetHex (heightMap (constructWorld 42)) 0 0 = Some mesh"
    and "CHUNK_SIZE * CHUNK_SIZE * 5 * 6 \<le> topFaceVertices mesh"
    using chunk00_counts[where hm = "heightMap (constructWorld 42)" and setHex = plainSetHex,
        OF wf_constructWorld constructWorld_heights]
    by metis
  then show ?thesis by simp
qed

lemma generateChunk_total:
  assumes "wfHeightMap (heightMap w)"
  obtains w' where "generateChunk setHex w cx cz = Some w'"
proof -
  obtain mesh where "chunkBuffers setHex (heightMap w) cx cz = Some mesh"
    using assms by (rule chunkBuffers_counts)
  then show ?thesis using that by (simp add: generateChunk_def)
qed

lemma updateChunksX_total:
  "wfHeightMap (heightMap w) \<Longrightarrow> \<exists>w'. updateChunksX setHex w playerChunkX cz cx = Some w'"
proof (induction setHex w playerChunkX cz cx rule: updateChunksX.induct)
  case (1 setHex w playerChunkX cz cx)
  show ?case
  proof (cases "cx \<le> playerChunkX + RENDER_DISTANCE")
    case False
    then show ?thesis by (simp add: updateChunksX.simps)
  next
    case True
    show ?thesis
    proof (cases "chunks w (cx, cz) \<noteq> None")
      case present: True
      then show ?thesis
        using "1.IH"(1)[OF True present "1.prems"] True by (subst updateChunksX.simps) simp
    next
      case absent: False
      obtain w1 where g: "generateChunk setHex w cx cz = Some w1"
        using "1.prems" by (rule generateChunk_total)
      have "wfHeightMap (heightMap w1)"
        using generateChunk_post(1)[OF g] "1.prems" by simp
      then show ?thesis
        using "1.IH"(2)[OF True absent g] True absent g by (subst updateChunksX.simps) simp
    qed
  qed
qed

lemma updateChunksZ_total:
  "wfHeightMap (heightMap w) \<Longrightarrow> \<exists>w'. updateChunksZ setHex w playerChunkX playerChunkZ cz = Some w'"
proof (induction setHex w playerChunkX playerChunkZ cz rule: updateChunksZ.induct)
  case (1 setHex w playerChunkX playerChunkZ cz)
  show ?case
  proof (cases "cz \<le> playerChunkZ + RENDER_DISTANCE")
    case False
    then show ?thesis by (simp add: updateChunksZ.simps)
  next
    case True
    obtain w1 where x: "updateChunksX setHex w playerChunkX cz (playerChunkX - RENDER_DISTANCE) = Some w1"
      using updateChunksX_total[OF "1.prems"] by blast
    have "wfHeightMap (heightMap w1)"
      using updateChunksX_post[OF x] "1.prems" by simp
    then show ?thesis
      using "1.IH"[OF True x] True x by (subst updateChunksZ.simps) simp
  qed
qed

text \<open>
  C6.  Idempotent chunk loading.  On a well-formed height map \<open>updateChunks\<close> returns,
  and called again on the world it returned (the player has not moved) it returns that
  very world: no chunk entry is added, none is changed, and no mesh is added to the
  scene.
\<close>

theorem updateChunks_idempotent:
  assumes "wfHeightMap (heightMap w)"
  shows "\<exists>w1. updateChunks setHex w = Some w1 \<and> updateChunks setHex w1 = Some w1"
proof -
  obtain w1 where "updateChunks setHex w = Some w1"
    unfolding updateChunks_def Let_def using updateChunksZ_total[OF assms] by blast
  then show ?thesis
    using updateChunks_twice by blast
qed

text \<open>An instance of C6: the world constructed with seed \<open>42\<close>, its player created.\<close>

theorem updateChunks_idempotent_witness:
  "wfHeightMap (heightMap (createPlayer (constructWorld 42)))
   \<and> (\<exists>w1. updateChunks plainSetHex (createPlayer (constructWorld 42)) = Some w1
          \<and> updateChunks plainSetHex w1 = Some w1)"
proof -
  have w: "wfHeightMap (heightMap (createPlayer (constructWorld 42)))"
    using wf_constructWorld[of 42] by (simp add: createPlayer_def)
  show ?thesis
    using updateChunks_idempotent[OF w, of plainSetHex] w by simp
qed

section \<open>The range of the noise, with overflow\<close>

subsection \<open>The caches of the embedding with overflow\<close>







subsection \<open>Within the bound nothing overflows\<close>
















subsection \<open>Beyond the bound\<close>







lemma hugeInput_overflow: "fin (hugeInput * 12.9898) = PosInf"
  by (simp add: fin_def hugeInput_def)




end
